theory Spec2Isabelle
  imports Main "HOL-Library.Sublist"
begin

section \<open>Schema: content blocks, tool calls, messages, responses\<close>

text \<open>
  The data model of \<^verbatim>\<open>schema.ts\<close> and \<^verbatim>\<open>tools/base.ts\<close>. A JavaScript string is an
  Isabelle \<open>string\<close> holding its UTF-8 bytes, as the source files hold them. A value of type
  \<^verbatim>\<open>unknown\<close> (a tool-call argument, a parsed JSON value) is a \<open>jsval\<close>: \<open>JOther r\<close> is
  any value that is neither nullish nor a string, and \<open>r\<close> is what the built-in
  \<^verbatim>\<open>String(value)\<close> gives for it, \<open>None\<close> when the conversion throws a TypeError (an
  object whose \<^verbatim>\<open>toString\<close> is not callable). An \<^verbatim>\<open>Error\<close> is a \<open>js_error\<close>.
  A field declared optional (\<^verbatim>\<open>content?: string\<close>) is an \<open>option\<close>.
\<close>

record content_block =
  ctype :: string
  ctext :: string

datatype jsval = JUndefined | JNull | JStr string | JOther "string option"

record js_error =
  ename :: string
  emessage :: string
  estack :: "string option"

record tool_result =
  success :: bool
  content :: "string option"
  error :: "string option"

record tool_call =
  tc_id :: "string option"
  tc_name :: string
  tc_args :: "(string \<times> jsval) list"
  thoughtSignature :: "string option"

datatype message =
    UserMessage "content_block list"
  | ModelMessage "content_block list" "tool_call list option"
  | ToolMessage "string option" string tool_result

record llm_response =
  resp_contents :: "content_block list"
  resp_toolCalls :: "tool_call list option"
  finishReason :: string
  totalTokens :: int

definition response_message :: "llm_response \<Rightarrow> message" where
  "response_message response = ModelMessage (resp_contents response) (resp_toolCalls response)"

fun isToolMessage :: "message \<Rightarrow> bool" where
  "isToolMessage (ToolMessage i n r) = True"
| "isToolMessage m = False"

fun isModelMessage :: "message \<Rightarrow> bool" where
  "isModelMessage (ModelMessage cs tcs) = True"
| "isModelMessage m = False"

fun isUserMessage :: "message \<Rightarrow> bool" where
  "isUserMessage (UserMessage cs) = True"
| "isUserMessage m = False"

section \<open>Tools and the context manager\<close>

text \<open>
  A tool's \<^verbatim>\<open>execute\<close> and the LLM client are code outside the agent: they read and
  change a world \<open>'w\<close> that the model threads through every call. \<open>properties\<close> is
  \<^verbatim>\<open>Object.keys(tool.parameters.properties)\<close>, \<open>None\<close> when the schema has no
  \<^verbatim>\<open>properties\<close>.
\<close>

datatype exec_outcome = Returned tool_result | Threw js_error

record 'w tool =
  tool_name :: string
  properties :: "string list option"
  execute :: "jsval list \<Rightarrow> 'w \<Rightarrow> exec_outcome \<times> 'w"

record 'w context_manager =
  tokenLimit :: int
  tools :: "'w tool list"
  messages :: "message list"
  apiTotalTokens :: int
  skipNextTokenCheck :: bool

text \<open>\<^verbatim>\<open>new Map(tools.map((tool) => [tool.name, tool]))\<close>: a later tool of the same name wins.\<close>

definition toolDict :: "'w context_manager \<Rightarrow> string \<Rightarrow> 'w tool option" where
  "toolDict cm = map_of (rev (map (\<lambda>t. (tool_name t, t)) (tools cm)))"

definition addUserMessage :: "content_block list \<Rightarrow> 'w context_manager \<Rightarrow> 'w context_manager" where
  "addUserMessage contents cm = cm\<lparr>messages := messages cm @ [UserMessage contents]\<rparr>"

definition addModelMessage :: "llm_response \<Rightarrow> 'w context_manager \<Rightarrow> 'w context_manager" where
  "addModelMessage response cm = cm\<lparr>messages := messages cm @ [response_message response]\<rparr>"

definition addToolMessage ::
  "tool_result \<Rightarrow> string \<Rightarrow> string option \<Rightarrow> 'w context_manager \<Rightarrow> 'w context_manager" where
  "addToolMessage result name toolCallId cm =
     cm\<lparr>messages := messages cm @ [ToolMessage toolCallId name result]\<rparr>"

text \<open>\<^verbatim>\<open>if (response.totalTokens)\<close>: a number is truthy unless it is zero (or NaN).\<close>

definition updateApiTokens :: "llm_response \<Rightarrow> 'w context_manager \<Rightarrow> 'w context_manager" where
  "updateApiTokens response cm =
     (if totalTokens response \<noteq> 0 then cm\<lparr>apiTotalTokens := totalTokens response\<rparr> else cm)"

section \<open>Events and the run state\<close>

text \<open>
  The events of \<^verbatim>\<open>AgentEventDefs\<close>, each with its payload; where the source gives an event
  one of two shapes (\<^verbatim>\<open>ok: true\<close> or \<^verbatim>\<open>ok: false\<close>) there are two constructors. The
  \<^verbatim>\<open>msg\<close> of a summarization event is a fixed text and is left out.
\<close>

datatype event =
    tokenEstimationFallbacked js_error
  | summarizeMessagesStarted nat int int
  | summarizeMessagesFinished_ok nat nat nat nat
  | summarizeMessagesFinished_failed
  | createSummaryFinished_ok nat string
  | createSummaryFinished_failed nat js_error
  | stepStarted int int
  | runFinished_ok string
  | runFinished_failed string js_error
  | llmResponseReceived llm_response
  | toolCallStarted string string "(string \<times> jsval) list"
  | toolCallFinished bool string string tool_result
  | emaReplyReceived jsval

datatype llm_outcome =
    Response llm_response
  | RetryExhausted js_error nat js_error
  | Failed js_error

text \<open>
  What the agent takes from outside: the LLM client and the library functions it calls.
  \<open>generate\<close> is \<^verbatim>\<open>LLMClient.generate(messages, tools, systemPrompt)\<close>, resolving to a
  response or rejecting (\<open>RetryExhausted err attempts lastException\<close> is a
  \<^verbatim>\<open>RetryExhaustedError\<close>); \<open>encode_length s\<close> is \<^verbatim>\<open>enc.encode(s).length\<close> of the
  tokenizer, \<open>Inl\<close> when \<^verbatim>\<open>encode\<close> throws; the three \<open>stringify\<close> functions are
  \<^verbatim>\<open>JSON.stringify\<close> on a content block, on a list of tool calls and on the
  \<^verbatim>\<open>{content, error, success}\<close> of a tool result; \<open>JSON_parse\<close> is \<^verbatim>\<open>JSON.parse\<close>,
  \<open>Inl\<close> when it throws.
\<close>

record 'w env =
  generate :: "message list \<Rightarrow> 'w tool list option \<Rightarrow> string option \<Rightarrow> 'w \<Rightarrow> llm_outcome \<times> 'w"
  encode_length :: "string \<Rightarrow> js_error + nat"
  stringify_block :: "content_block \<Rightarrow> string"
  stringify_toolCalls :: "tool_call list \<Rightarrow> string"
  stringify_result :: "tool_result \<Rightarrow> string"
  JSON_parse :: "string \<Rightarrow> js_error + jsval"

text \<open>
  The state a run works on: the context manager, the world of the LLM and the tools, and
  the events emitted so far, oldest first.
\<close>

record 'w run_state =
  contextManager :: "'w context_manager"
  world :: 'w
  emitted :: "event list"

definition emit :: "event \<Rightarrow> 'w run_state \<Rightarrow> 'w run_state" where
  "emit e s = s\<lparr>emitted := emitted s @ [e]\<rparr>"

section \<open>Strings\<close>

text \<open>
  \<^verbatim>\<open>s.length\<close> counts UTF-16 code units. On the UTF-8 bytes of \<open>s\<close> that is one for every
  byte that is not a continuation byte, and one more for the lead byte of a four-byte
  sequence (a surrogate pair).
\<close>

definition js_length :: "string \<Rightarrow> nat" where
  "js_length s =
     length (filter (\<lambda>c. \<not> (128 \<le> (of_char c :: nat) \<and> (of_char c :: nat) < 192)) s)
     + length (filter (\<lambda>c. 240 \<le> (of_char c :: nat)) s)"

text \<open>\<^verbatim>\<open>xs.join(sep)\<close>.\<close>

fun join :: "string \<Rightarrow> string list \<Rightarrow> string" where
  "join sep [] = []"
| "join sep [x] = x"
| "join sep (x # y # ys) = x @ sep @ join sep (y # ys)"

text \<open>
  A number in a template literal: the decimal digits of an integer, with a minus sign
  before those of a negative one.
\<close>

definition digit_of :: "nat \<Rightarrow> char" where
  "digit_of d = char_of (of_char (CHR ''0'') + d)"

fun decimal :: "nat \<Rightarrow> string" where
  "decimal n = (if 10 \<le> n then decimal (n div 10) @ [digit_of (n mod 10)] else [digit_of n])"

definition number_text :: "int \<Rightarrow> string" where
  "number_text i = (if 0 \<le> i then decimal (nat i) else CHR ''-'' # decimal (nat (- i)))"

text \<open>\<^verbatim>\<open>String(error)\<close> of an \<^verbatim>\<open>Error\<close>: its name and message, as \<^verbatim>\<open>Error.prototype.toString\<close> joins them.\<close>

definition error_toString :: "js_error \<Rightarrow> string" where
  "error_toString e =
     (if ename e = [] then emessage e
      else if emessage e = [] then ename e
      else ename e @ '': '' @ emessage e)"

definition newline :: string where
  "newline = [CHR 0x0A]"

text \<open>\<^verbatim>\<open>xs.slice(a, b)\<close> for \<open>0 \<le> a\<close> and \<open>0 \<le> b\<close>.\<close>

definition slice :: "'a list \<Rightarrow> nat \<Rightarrow> nat \<Rightarrow> 'a list" where
  "slice xs a b = take (b - a) (drop a xs)"

section \<open>Token estimation\<close>

definition isText :: "content_block \<Rightarrow> bool" where
  "isText block = (ctype block = ''text'')"

text \<open>
  \<open>estimateTokens\<close>: the loop adds up inside a \<^verbatim>\<open>try\<close>; the first \<^verbatim>\<open>encode\<close> that
  throws ends it, the event is emitted and the fallback estimate is returned.
\<close>

definition block_tokens :: "'w env \<Rightarrow> content_block \<Rightarrow> js_error + nat" where
  "block_tokens env block =
     (if isText block then encode_length env (ctext block)
      else encode_length env (stringify_block env block))"

fun blocks_tokens :: "'w env \<Rightarrow> content_block list \<Rightarrow> nat \<Rightarrow> js_error + nat" where
  "blocks_tokens env [] tokens = Inr tokens"
| "blocks_tokens env (block # blocks) tokens =
     (case block_tokens env block of
        Inl e \<Rightarrow> Inl e
      | Inr n \<Rightarrow> blocks_tokens env blocks (tokens + n))"

fun message_tokens :: "'w env \<Rightarrow> message \<Rightarrow> nat \<Rightarrow> js_error + nat" where
  "message_tokens env (UserMessage contents) tokens =
     (case blocks_tokens env contents tokens of
        Inl e \<Rightarrow> Inl e
      | Inr t \<Rightarrow> Inr (t + 4))"
| "message_tokens env (ModelMessage contents toolCalls) tokens =
     (case blocks_tokens env contents tokens of
        Inl e \<Rightarrow> Inl e
      | Inr t \<Rightarrow>
          (case toolCalls of
             None \<Rightarrow> Inr (t + 4)
           | Some tcs \<Rightarrow>
               (case encode_length env (stringify_toolCalls env tcs) of
                  Inl e \<Rightarrow> Inl e
                | Inr n \<Rightarrow> Inr (t + n + 4))))"
| "message_tokens env (ToolMessage toolCallId name result) tokens =
     (case encode_length env (stringify_result env result) of
        Inl e \<Rightarrow> Inl e
      | Inr n \<Rightarrow> Inr (tokens + n + 4))"

fun messages_tokens :: "'w env \<Rightarrow> message list \<Rightarrow> nat \<Rightarrow> js_error + nat" where
  "messages_tokens env [] tokens = Inr tokens"
| "messages_tokens env (msg # msgs) tokens =
     (case message_tokens env msg tokens of
        Inl e \<Rightarrow> Inl e
      | Inr t \<Rightarrow> messages_tokens env msgs t)"

definition block_chars :: "'w env \<Rightarrow> content_block \<Rightarrow> nat" where
  "block_chars env block =
     (if isText block then js_length (ctext block) else js_length (stringify_block env block))"

fun message_chars :: "'w env \<Rightarrow> message \<Rightarrow> nat" where
  "message_chars env (UserMessage contents) = sum_list (map (block_chars env) contents)"
| "message_chars env (ModelMessage contents toolCalls) =
     sum_list (map (block_chars env) contents)
     + (case toolCalls of None \<Rightarrow> 0 | Some tcs \<Rightarrow> js_length (stringify_toolCalls env tcs))"
| "message_chars env (ToolMessage toolCallId name result) =
     js_length (stringify_result env result)"

text \<open>\<^verbatim>\<open>Math.floor(totalChars / 2.5)\<close>, which is \<open>2 * totalChars div 5\<close>.\<close>

definition estimateTokensFallback :: "'w env \<Rightarrow> message list \<Rightarrow> nat" where
  "estimateTokensFallback env msgs = (2 * sum_list (map (message_chars env) msgs)) div 5"

definition estimateTokens :: "'w env \<Rightarrow> 'w run_state \<Rightarrow> nat \<times> 'w run_state" where
  "estimateTokens env s =
     (case messages_tokens env (messages (contextManager s)) 0 of
        Inr tokens \<Rightarrow> (tokens, s)
      | Inl e \<Rightarrow>
          (estimateTokensFallback env (messages (contextManager s)),
           emit (tokenEstimationFallbacked e) s))"

section \<open>Summarization\<close>

definition text_block :: "string \<Rightarrow> content_block" where
  "text_block t = \<lparr>ctype = ''text'', ctext = t\<rparr>"

text \<open>\<^verbatim>\<open>contents.filter((c) => c.type === "text").map((c) => c.text).join("\n")\<close>.\<close>

definition joined_text :: "content_block list \<Rightarrow> string" where
  "joined_text contents = join newline (map ctext (filter isText contents))"

text \<open>
  The line \<open>createSummary\<close> writes for one message of a round. The arrows of the source are
  U+2192 and U+2190. \<^verbatim>\<open>result.content || result.error || ""\<close> passes over an empty
  string as it passes over \<^verbatim>\<open>undefined\<close>.
\<close>

definition right_arrow :: string where
  "right_arrow = [CHR 0xE2, CHR 0x86, CHR 0x92]"

definition left_arrow :: string where
  "left_arrow = [CHR 0xE2, CHR 0x86, CHR 0x90]"

definition truthy :: "string option \<Rightarrow> bool" where
  "truthy v = (v \<noteq> None \<and> v \<noteq> Some [])"

definition preview :: "tool_result \<Rightarrow> string" where
  "preview result =
     (if truthy (content result) then the (content result)
      else if truthy (error result) then the (error result)
      else [])"

fun summary_line :: "message \<Rightarrow> string" where
  "summary_line (ModelMessage contents toolCalls) =
     ''Assistant: '' @ joined_text contents @ newline
     @ (case toolCalls of
          None \<Rightarrow> []
        | Some tcs \<Rightarrow>
            (if length tcs > 0
             then ''  '' @ right_arrow @ '' Called tools: '' @ join '', '' (map tc_name tcs) @ newline
             else []))"
| "summary_line (ToolMessage toolCallId name result) =
     ''  '' @ left_arrow @ '' Tool returned: '' @ preview result @ ''...'' @ newline"
| "summary_line (UserMessage contents) = []"

definition summary_content :: "message list \<Rightarrow> nat \<Rightarrow> string" where
  "summary_content msgs roundNum =
     ''Round '' @ decimal roundNum @ '' execution process:'' @ newline @ newline
     @ concat (map summary_line msgs)"

definition summary_prompt :: "string \<Rightarrow> string" where
  "summary_prompt summaryContent =
     ''Please provide a concise summary of the following Agent execution process:''
     @ newline @ newline @ summaryContent @ newline @ newline
     @ ''Requirements:'' @ newline
     @ ''1. Focus on what tasks were completed and which tools were called'' @ newline
     @ ''2. Keep key execution results and important findings'' @ newline
     @ ''3. Be concise and clear, within 1000 words'' @ newline
     @ ''4. Use English'' @ newline
     @ ''5. Do not include '' @ [CHR 0x22] @ ''user'' @ [CHR 0x22]
     @ '' related content, only summarize the Agent'' @ [CHR 0x27] @ ''s execution process''"

definition summarizer_intro :: string where
  "summarizer_intro = ''You are an assistant skilled at summarizing Agent execution processes.''"

text \<open>
  \<open>createSummary\<close>: the summary of one round. The LLM is asked; when the call rejects, the
  text built from the messages is the summary.
\<close>

definition createSummary ::
  "'w env \<Rightarrow> message list \<Rightarrow> nat \<Rightarrow> 'w run_state \<Rightarrow> string \<times> 'w run_state" where
  "createSummary env msgs roundNum s =
     (if length msgs = 0 then ([], s)
      else
        let summaryContent = summary_content msgs roundNum;
            summaryMsg = UserMessage [text_block (summary_prompt summaryContent)];
            (outcome, w) =
               generate env [UserMessage [text_block summarizer_intro], summaryMsg] None None (world s)
        in (case outcome of
              Response response \<Rightarrow>
                (let summaryText = joined_text (resp_contents response)
                 in (summaryText,
                     emit (createSummaryFinished_ok roundNum summaryText) (s\<lparr>world := w\<rparr>)))
            | RetryExhausted err attempts lastException \<Rightarrow>
                (summaryContent, emit (createSummaryFinished_failed roundNum err) (s\<lparr>world := w\<rparr>))
            | Failed err \<Rightarrow>
                (summaryContent, emit (createSummaryFinished_failed roundNum err) (s\<lparr>world := w\<rparr>))))"

text \<open>
  The indices of the user messages:
  \<^verbatim>\<open>messages.map((msg, index) => ({ msg, index })).filter(({ msg }) => isUserMessage(msg)).map(({ index }) => index)\<close>.
\<close>

definition userIndices_of :: "message list \<Rightarrow> nat list" where
  "userIndices_of msgs =
     map snd (filter (\<lambda>(msg, index). isUserMessage msg) (zip msgs [0 ..< length msgs]))"

definition summaryMessage :: "string \<Rightarrow> message" where
  "summaryMessage summaryText =
     UserMessage [text_block (''[Model Execution Summary]'' @ newline @ newline @ summaryText)]"

text \<open>
  The loop over \<open>userIndices\<close>: its first argument after the messages is what is left of
  \<open>userIndices\<close> from position \<open>i\<close> on, so \<open>userIndices[i]\<close> is its head and
  \<open>userIndices[i + 1]\<close>, when \<open>i\<close> is not the last position, the head of its tail. The loop
  carries \<open>newMessages\<close>, \<open>summaryCount\<close> and the run state. \<^verbatim>\<open>if (summaryText)\<close> holds
  for every string but the empty one.
\<close>

fun summarize_rounds ::
  "'w env \<Rightarrow> message list \<Rightarrow> nat list \<Rightarrow> nat \<Rightarrow> message list \<times> nat \<times> 'w run_state
     \<Rightarrow> message list \<times> nat \<times> 'w run_state" where
  "summarize_rounds env msgs [] i acc = acc"
| "summarize_rounds env msgs (userIdx # rest) i (newMessages, summaryCount, s) =
     (let newMessages1 = newMessages @ [msgs ! userIdx];
          nextUserIdx = (case rest of [] \<Rightarrow> length msgs | n # ns \<Rightarrow> n);
          executionMessages = slice msgs (userIdx + 1) nextUserIdx
      in if length executionMessages > 0
         then (case createSummary env executionMessages (i + 1) s of
                 (summaryText, s1) \<Rightarrow>
                   if summaryText \<noteq> []
                   then summarize_rounds env msgs rest (i + 1)
                          (newMessages1 @ [summaryMessage summaryText], summaryCount + 1, s1)
                   else summarize_rounds env msgs rest (i + 1) (newMessages1, summaryCount, s1))
         else summarize_rounds env msgs rest (i + 1) (newMessages1, summaryCount, s))"

definition initial_newMessages :: "message list \<Rightarrow> message list" where
  "initial_newMessages msgs =
     (if length msgs > 0 \<and> \<not> isUserMessage (msgs ! 0) then [msgs ! 0] else [])"

definition set_messages :: "message list \<Rightarrow> 'w run_state \<Rightarrow> 'w run_state" where
  "set_messages msgs s = s\<lparr>contextManager := (contextManager s)\<lparr>messages := msgs\<rparr>\<rparr>"

definition set_skipNextTokenCheck :: "bool \<Rightarrow> 'w run_state \<Rightarrow> 'w run_state" where
  "set_skipNextTokenCheck b s =
     s\<lparr>contextManager := (contextManager s)\<lparr>skipNextTokenCheck := b\<rparr>\<rparr>"

definition summarizeMessages :: "'w env \<Rightarrow> 'w run_state \<Rightarrow> 'w run_state" where
  "summarizeMessages env s =
     (if skipNextTokenCheck (contextManager s) then set_skipNextTokenCheck False s
      else
        case estimateTokens env s of
          (estimatedTokens, s1) \<Rightarrow>
            let cm = contextManager s1;
                shouldSummarize =
                  (int estimatedTokens > tokenLimit cm \<or> apiTotalTokens cm > tokenLimit cm)
            in if \<not> shouldSummarize then s1
               else
                 let s2 = emit (summarizeMessagesStarted estimatedTokens (apiTotalTokens cm)
                                  (tokenLimit cm)) s1;
                     userIndices = userIndices_of (messages cm)
                 in if length userIndices < 1 then emit summarizeMessagesFinished_failed s2
                    else
                      case summarize_rounds env (messages cm) userIndices 0
                             (initial_newMessages (messages cm), 0, s2) of
                        (newMessages, summaryCount, s3) \<Rightarrow>
                          (case estimateTokens env
                                  (set_skipNextTokenCheck True (set_messages newMessages s3)) of
                             (newTokens, s4) \<Rightarrow>
                               emit (summarizeMessagesFinished_ok estimatedTokens newTokens
                                       (length userIndices) summaryCount) s4))"

section \<open>The agent loop\<close>

text \<open>
  \<^verbatim>\<open>callArgs[key]\<close> is \<^verbatim>\<open>undefined\<close> for a key the arguments do not have. The positional
  arguments follow the keys of the tool's \<open>properties\<close>, or the arguments' own order when
  the schema has none.
\<close>

definition lookup_arg :: "(string \<times> jsval) list \<Rightarrow> string \<Rightarrow> jsval" where
  "lookup_arg callArgs key = (case map_of callArgs key of None \<Rightarrow> JUndefined | Some v \<Rightarrow> v)"

definition positionalArgs :: "'w tool \<Rightarrow> (string \<times> jsval) list \<Rightarrow> jsval list" where
  "positionalArgs tool callArgs =
     (case properties tool of
        Some keys \<Rightarrow> map (lookup_arg callArgs) keys
      | None \<Rightarrow> map snd callArgs)"

definition unknown_tool_result :: "string \<Rightarrow> tool_result" where
  "unknown_tool_result functionName =
     \<lparr>success = False, content = None, error = Some (''Unknown tool: '' @ functionName)\<rparr>"

definition failed_tool_result :: "js_error \<Rightarrow> tool_result" where
  "failed_tool_result err =
     \<lparr>success = False, content = None,
      error = Some (''Tool execution failed: '' @ ename err @ '': '' @ emessage err
                    @ newline @ newline @ ''Traceback:'' @ newline
                    @ (case estack err of None \<Rightarrow> [] | Some trace \<Rightarrow> trace))\<rparr>"

definition execute_tool ::
  "'w context_manager \<Rightarrow> tool_call \<Rightarrow> 'w \<Rightarrow> tool_result \<times> 'w" where
  "execute_tool cm toolCall w =
     (case toolDict cm (tc_name toolCall) of
        None \<Rightarrow> (unknown_tool_result (tc_name toolCall), w)
      | Some tool \<Rightarrow>
          (case execute tool (positionalArgs tool (tc_args toolCall)) w of
             (Returned result, w') \<Rightarrow> (result, w')
           | (Threw err, w') \<Rightarrow> (failed_tool_result err, w')))"

text \<open>\<^verbatim>\<open>JSON.parse(result.content!)\<close>: an absent content is \<^verbatim>\<open>undefined\<close>, which is no JSON text.\<close>

definition undefined_is_not_json :: js_error where
  "undefined_is_not_json =
     \<lparr>ename = ''SyntaxError'', emessage = ''undefined is not valid JSON'', estack = None\<rparr>"

definition parse_content :: "'w env \<Rightarrow> string option \<Rightarrow> js_error + jsval" where
  "parse_content env c =
     (case c of None \<Rightarrow> Inl undefined_is_not_json | Some text \<Rightarrow> JSON_parse env text)"

definition id_or_empty :: "string option \<Rightarrow> string" where
  "id_or_empty toolCallId = (case toolCallId of None \<Rightarrow> [] | Some i \<Rightarrow> i)"

definition add_tool_message ::
  "tool_result \<Rightarrow> string \<Rightarrow> string option \<Rightarrow> 'w run_state \<Rightarrow> 'w run_state" where
  "add_tool_message result functionName toolCallId s =
     s\<lparr>contextManager := addToolMessage result functionName toolCallId (contextManager s)\<rparr>"

text \<open>
  One pass of the loop over the tool calls. The first component of the result is the
  error the pass throws (\<^verbatim>\<open>JSON.parse\<close> is not inside a \<^verbatim>\<open>try\<close>), \<open>None\<close> when it
  completes. An event holds its payload as it is when the event is emitted: the
  \<open>toolCallFinished\<close> event carries the result with its content, which the line after the
  \<open>emaReplyReceived\<close> event clears.
\<close>

definition run_tool_call ::
  "'w env \<Rightarrow> tool_call \<Rightarrow> 'w run_state \<Rightarrow> js_error option \<times> 'w run_state" where
  "run_tool_call env toolCall s =
     (let toolCallId = tc_id toolCall;
          functionName = tc_name toolCall;
          callArgs = tc_args toolCall;
          s1 = emit (toolCallStarted (id_or_empty toolCallId) functionName callArgs) s
      in case execute_tool (contextManager s1) toolCall (world s1) of
           (result, w) \<Rightarrow>
             let s2 = s1\<lparr>world := w\<rparr>
             in if success result
                then
                  let s3 = emit (toolCallFinished True (id_or_empty toolCallId) functionName result) s2
                  in if functionName = ''ema_reply'' \<and> success result
                     then (case parse_content env (content result) of
                             Inl err \<Rightarrow> (Some err, s3)
                           | Inr reply \<Rightarrow>
                               (None,
                                add_tool_message (result\<lparr>content := None\<rparr>) functionName toolCallId
                                  (emit (emaReplyReceived reply) s3)))
                     else (None, add_tool_message result functionName toolCallId s3)
                else
                  (None,
                   add_tool_message result functionName toolCallId
                     (emit (toolCallFinished False (id_or_empty toolCallId) functionName result) s2)))"

fun run_tool_calls ::
  "'w env \<Rightarrow> tool_call list \<Rightarrow> 'w run_state \<Rightarrow> js_error option \<times> 'w run_state" where
  "run_tool_calls env [] s = (None, s)"
| "run_tool_calls env (toolCall # toolCalls) s =
     (case run_tool_call env toolCall s of
        (Some err, s') \<Rightarrow> (Some err, s')
      | (None, s') \<Rightarrow> run_tool_calls env toolCalls s')"

definition retry_exhausted_msg :: "nat \<Rightarrow> js_error \<Rightarrow> string" where
  "retry_exhausted_msg attempts lastException =
     ''LLM call failed after '' @ decimal attempts @ '' retries'' @ newline
     @ ''Last error: '' @ error_toString lastException"

definition max_steps_msg :: "int \<Rightarrow> string" where
  "max_steps_msg maxSteps =
     ''Task couldn'' @ [CHR 0x27] @ ''t be completed after '' @ number_text maxSteps @ '' steps.''"

definition new_Error :: "string \<Rightarrow> js_error" where
  "new_Error msg = \<lparr>ename = ''Error'', emessage = msg, estack = None\<rparr>"

text \<open>
  \<open>Agent.run\<close>, from step \<open>step\<close> on. The result is the error the returned promise rejects
  with, \<open>None\<close> when it resolves, and the state the run leaves.
\<close>

function run_from ::
  "'w env \<Rightarrow> int \<Rightarrow> string \<Rightarrow> int \<Rightarrow> 'w run_state \<Rightarrow> js_error option \<times> 'w run_state" where
  "run_from env maxSteps systemPrompt step s =
     (if step < maxSteps
      then
        let s1 = summarizeMessages env s;
            s2 = emit (stepStarted (step + 1) maxSteps) s1
        in case generate env (messages (contextManager s2)) (Some (tools (contextManager s2)))
                  (Some systemPrompt) (world s2) of
             (RetryExhausted err attempts lastException, w) \<Rightarrow>
               (None,
                emit (runFinished_failed (retry_exhausted_msg attempts lastException) err)
                  (s2\<lparr>world := w\<rparr>))
           | (Failed err, w) \<Rightarrow>
               (None, emit (runFinished_failed ''LLM call failed.'' err) (s2\<lparr>world := w\<rparr>))
           | (Response response, w) \<Rightarrow>
               let s3 = emit (llmResponseReceived response) (s2\<lparr>world := w\<rparr>);
                   s4 = s3\<lparr>contextManager :=
                           addModelMessage response (updateApiTokens response (contextManager s3))\<rparr>
               in (case resp_toolCalls response of
                     None \<Rightarrow> (None, emit (runFinished_ok (finishReason response)) s4)
                   | Some toolCalls \<Rightarrow>
                       if length toolCalls = 0
                       then (None, emit (runFinished_ok (finishReason response)) s4)
                       else (case run_tool_calls env toolCalls s4 of
                               (Some err, s5) \<Rightarrow> (Some err, s5)
                             | (None, s5) \<Rightarrow> run_from env maxSteps systemPrompt (step + 1) s5))
      else
        (None,
         emit (runFinished_failed (max_steps_msg maxSteps) (new_Error (max_steps_msg maxSteps))) s))"
  by pat_completeness auto
termination
  by (relation "measure (\<lambda>(env, maxSteps, systemPrompt, step, s). nat (maxSteps - step))") auto

definition run :: "'w env \<Rightarrow> int \<Rightarrow> string \<Rightarrow> 'w run_state \<Rightarrow> js_error option \<times> 'w run_state" where
  "run env maxSteps systemPrompt s = run_from env maxSteps systemPrompt 0 s"

section \<open>The actor worker\<close>

text \<open>
  The worker of the actor source file (\<open>ActorWorker\<close>) and the buffer messages of
  \<^verbatim>\<open>memory/utils.ts\<close>. What the worker takes from outside: \<open>format_time\<close> is
  \<^verbatim>\<open>dayjs(time).format("YYYY-MM-DD HH:mm:ss")\<close>, \<open>stringify_reply\<close> is
  \<^verbatim>\<open>JSON.stringify\<close> on a reply, and \<open>store_write\<close> is the write \<open>addBuffer\<close> awaits
  before it appends to the in-memory buffer, \<open>Some e\<close> when that promise rejects with
  \<open>e\<close>. The source awaits \<^verbatim>\<open>Promise.resolve()\<close> there (the write to the database is
  still to be done), which is \<open>in_memory_write\<close>.
\<close>

datatype buffer_kind = user | actor

record buffer_message =
  bm_kind :: buffer_kind
  bm_name :: string
  bm_id :: int
  bm_contents :: "content_block list"
  bm_time :: int

record actor_env =
  format_time :: "int \<Rightarrow> string"
  stringify_reply :: "jsval \<Rightarrow> string"
  store_write :: "buffer_message \<Rightarrow> js_error option"

definition in_memory_write :: "buffer_message \<Rightarrow> js_error option" where
  "in_memory_write m = None"



definition bufferMessageFromUser ::
  "int \<Rightarrow> string \<Rightarrow> content_block list \<Rightarrow> int \<Rightarrow> buffer_message" where
  "bufferMessageFromUser userId userName inputs t =
     \<lparr>bm_kind = user, bm_name = userName, bm_id = userId, bm_contents = inputs, bm_time = t\<rparr>"

definition bufferMessageFromEma ::
  "actor_env \<Rightarrow> int \<Rightarrow> string \<Rightarrow> jsval \<Rightarrow> int \<Rightarrow> buffer_message" where
  "bufferMessageFromEma aenv actorId actorName reply t =
     \<lparr>bm_kind = actor, bm_name = actorName, bm_id = actorId,
      bm_contents = [text_block (stringify_reply aenv reply)], bm_time = t\<rparr>"


datatype actor_status = preparing | running | idle

datatype actor_event = message_event string | agent_event event

datatype log_entry = debug_entry string | error_entry string js_error

record 't AgentState =
  systemPrompt :: string
  state_messages :: "message list"
  state_tools :: 't

text \<open>
  \<open>bufferWritePromise\<close> is a chain of promises, each made from the one before it by
  \<^verbatim>\<open>.then(() => this.addBuffer(message)).catch(...)\<close>. The model keeps how the last
  settled promise of the chain settled (\<open>None\<close> fulfilled, \<open>Some e\<close> rejected with \<open>e\<close>)
  and the writes chained behind it whose turn has not come, oldest first. A promise made
  by \<^verbatim>\<open>.then\<close> settles only after the promise it was made from, so the turn of a write
  comes when every write chained before it has settled.
\<close>

record write_chain =
  settled :: "js_error option"
  pending :: "buffer_message list"

record 't worker =
  userId :: int
  actorId :: int
  config_systemPrompt :: string
  config_baseTools :: 't
  currentStatus :: actor_status
  agentState :: "'t AgentState option"
  buffer :: "buffer_message list"
  queue :: "buffer_message list"
  hasEmaReplyInRun :: bool
  currentRunPromise :: bool
  processingQueue :: bool
  bufferWritePromise :: write_chain
  resumeStateAfterAbort :: bool
  actor_events :: "actor_event list"
  logged :: "log_entry list"

definition enqueueBufferWrite :: "buffer_message \<Rightarrow> 't worker \<Rightarrow> 't worker" where
  "enqueueBufferWrite m s =
     s\<lparr>bufferWritePromise :=
         (bufferWritePromise s)\<lparr>pending := pending (bufferWritePromise s) @ [m]\<rparr>\<rparr>"








text \<open>\<open>emitEvent\<close>: a reply event of the agent marks the run and enqueues the reply for the buffer.\<close>

definition emitEvent :: "actor_env \<Rightarrow> int \<Rightarrow> actor_event \<Rightarrow> 't worker \<Rightarrow> 't worker" where
  "emitEvent aenv now ev s =
     (let s1 = (case ev of
                  agent_event (emaReplyReceived reply) \<Rightarrow>
                    enqueueBufferWrite (bufferMessageFromEma aenv (actorId s) ''EMA'' reply now)
                      (s\<lparr>hasEmaReplyInRun := True\<rparr>)
                | _ \<Rightarrow> s)
      in s1\<lparr>actor_events := actor_events s1 @ [ev]\<rparr>)"

definition status_string :: "actor_status \<Rightarrow> string" where
  "status_string st = (case st of preparing \<Rightarrow> ''preparing'' | running \<Rightarrow> ''running'' | idle \<Rightarrow> ''idle'')"


definition isBusy :: "'t worker \<Rightarrow> bool" where
  "isBusy s = (currentStatus s \<noteq> idle)"

text \<open>
  \<open>work\<close>, up to the promise it goes on to await: it throws (\<open>Raised\<close>), or it has set the
  flag and goes on to \<open>abortCurrentRun\<close>, or it goes on to \<open>processQueue\<close>. The state
  returned is the worker at that point. \<open>now\<close> is \<^verbatim>\<open>Date.now()\<close>.
\<close>

datatype work_next = Raised js_error | AbortCurrentRun | ProcessQueue

definition work ::
  "actor_env \<Rightarrow> int \<Rightarrow> content_block list \<Rightarrow> 't worker \<Rightarrow> work_next \<times> 't worker" where
  "work aenv now inputs s =
     (if length inputs = 0 then (Raised (new_Error ''No inputs provided''), s)
      else if list_ex (\<lambda>input. ctype input \<noteq> ''text'') inputs
      then (Raised (new_Error ''Only text input is supported currently''), s)
      else
        let input = inputs ! 0;
            s1 = emitEvent aenv now (message_event (''Received input: '' @ ctext input @ ''.'')) s;
            bufferMessage = bufferMessageFromUser (userId s1) ''User'' inputs now;
            s2 = s1\<lparr>logged := logged s1 @ [debug_entry (''Received input when [''
                                   @ status_string (currentStatus s1) @ ''].'')]\<rparr>;
            s3 = s2\<lparr>queue := queue s2 @ [bufferMessage]\<rparr>;
            s4 = enqueueBufferWrite bufferMessage s3
        in if isBusy s4
           then (AbortCurrentRun, s4\<lparr>resumeStateAfterAbort := \<not> hasEmaReplyInRun s4\<rparr>)
           else (ProcessQueue, s4))"




section \<open>The reply tool\<close>

text \<open>
  \<open>LLMReply\<close> and \<open>FinalReplyTool\<close>. \<^verbatim>\<open>String(input.think ?? "")\<close>: a nullish value gives
  the empty string, a string itself, and any other value what \<^verbatim>\<open>String\<close> makes of it,
  which throws a TypeError for some objects.
\<close>

record LLMReply =
  think :: string
  expression :: string
  action :: string
  response :: string

definition cannot_convert :: js_error where
  "cannot_convert =
     \<lparr>ename = ''TypeError'', emessage = ''Cannot convert object to primitive value'',
      estack = None\<rparr>"

fun String_or_empty :: "jsval \<Rightarrow> js_error + string" where
  "String_or_empty JUndefined = Inr []"
| "String_or_empty JNull = Inr []"
| "String_or_empty (JStr v) = Inr v"
| "String_or_empty (JOther None) = Inl cannot_convert"
| "String_or_empty (JOther (Some v)) = Inr v"

definition normalize :: "jsval \<Rightarrow> jsval \<Rightarrow> jsval \<Rightarrow> jsval \<Rightarrow> js_error + LLMReply" where
  "normalize i_think i_expression i_action i_response =
     (case String_or_empty i_think of
        Inl e \<Rightarrow> Inl e
      | Inr t \<Rightarrow>
     (case String_or_empty i_expression of
        Inl e \<Rightarrow> Inl e
      | Inr x \<Rightarrow>
     (case String_or_empty i_action of
        Inl e \<Rightarrow> Inl e
      | Inr a \<Rightarrow>
     (case String_or_empty i_response of
        Inl e \<Rightarrow> Inl e
      | Inr r \<Rightarrow> Inr \<lparr>think = t, expression = x, action = a, response = r\<rparr>))))"

text \<open>
  \<^verbatim>\<open>JSON.stringify(payload, null, 2)\<close> on a reply, whose four fields are strings: the
  quoted form of a string escapes the quotation mark, the backslash and the control
  characters, and the object is written one field a line, indented by two spaces.
\<close>

definition hex_digit :: "nat \<Rightarrow> char" where
  "hex_digit n = (if n < 10 then char_of (48 + n) else char_of (87 + n))"

definition json_escape :: "char \<Rightarrow> string" where
  "json_escape c =
     (if c = CHR 0x22 then [CHR 0x5C, CHR 0x22]
      else if c = CHR 0x5C then [CHR 0x5C, CHR 0x5C]
      else if c = CHR 0x08 then [CHR 0x5C, CHR ''b'']
      else if c = CHR 0x0C then [CHR 0x5C, CHR ''f'']
      else if c = CHR 0x0A then [CHR 0x5C, CHR ''n'']
      else if c = CHR 0x0D then [CHR 0x5C, CHR ''r'']
      else if c = CHR 0x09 then [CHR 0x5C, CHR ''t'']
      else if (of_char c :: nat) < 32
      then [CHR 0x5C, CHR ''u'', CHR ''0'', CHR ''0'',
            hex_digit ((of_char c :: nat) div 16), hex_digit ((of_char c :: nat) mod 16)]
      else [c])"

definition json_quote :: "string \<Rightarrow> string" where
  "json_quote v = [CHR 0x22] @ concat (map json_escape v) @ [CHR 0x22]"

definition json_field :: "string \<Rightarrow> string \<Rightarrow> string" where
  "json_field key v = ''  '' @ json_quote key @ '': '' @ json_quote v"

definition JSON_stringify_reply :: "LLMReply \<Rightarrow> string" where
  "JSON_stringify_reply payload =
     ''{'' @ newline
     @ json_field ''think'' (think payload) @ '','' @ newline
     @ json_field ''expression'' (expression payload) @ '','' @ newline
     @ json_field ''action'' (action payload) @ '','' @ newline
     @ json_field ''response'' (response payload) @ newline
     @ ''}''"

definition FinalReplyTool_name :: string where
  "FinalReplyTool_name = ''final_reply''"

definition FinalReplyTool_execute :: "jsval \<Rightarrow> jsval \<Rightarrow> jsval \<Rightarrow> jsval \<Rightarrow> tool_result" where
  "FinalReplyTool_execute i_think i_expression i_action i_response =
     (case normalize i_think i_expression i_action i_response of
        Inr payload \<Rightarrow>
          \<lparr>success = True, content = Some (JSON_stringify_reply payload), error = None\<rparr>
      | Inl err \<Rightarrow>
          \<lparr>success = False, content = None,
           error = Some (''Invalid structured reply: '' @ emessage err)\<rparr>)"

section \<open>Notions the properties are stated with\<close>

subsection \<open>Summarization\<close>

text \<open>
  \<open>rebuilds\<close> is the path condition of \<open>summarizeMessages\<close> up to the line that replaces
  the message list: the flag is not set, one of the two counts exceeds the limit, and there
  is a user message. \<open>started\<close> is the state at the start of the rebuilding (the estimate
  made, the start event emitted) and \<open>rebuilt_state\<close> the state the rebuilding leaves.
\<close>

definition rebuilds :: "'w env \<Rightarrow> 'w run_state \<Rightarrow> bool" where
  "rebuilds env s =
     (\<not> skipNextTokenCheck (contextManager s)
      \<and> (int (fst (estimateTokens env s)) > tokenLimit (contextManager s)
           \<or> apiTotalTokens (contextManager s) > tokenLimit (contextManager s))
      \<and> length (userIndices_of (messages (contextManager s))) \<ge> 1)"

definition started :: "'w env \<Rightarrow> 'w run_state \<Rightarrow> 'w run_state" where
  "started env s =
     emit (summarizeMessagesStarted (fst (estimateTokens env s))
             (apiTotalTokens (contextManager s)) (tokenLimit (contextManager s)))
          (snd (estimateTokens env s))"

definition rebuilt_state :: "'w env \<Rightarrow> 'w run_state \<Rightarrow> 'w run_state" where
  "rebuilt_state env s =
     (case summarize_rounds env (messages (contextManager s))
             (userIndices_of (messages (contextManager s))) 0
             (initial_newMessages (messages (contextManager s)), 0, started env s) of
        (newMessages, summaryCount, s3) \<Rightarrow>
          emit (summarizeMessagesFinished_ok (fst (estimateTokens env s))
                  (fst (estimateTokens env (set_skipNextTokenCheck True (set_messages newMessages s3))))
                  (length (userIndices_of (messages (contextManager s)))) summaryCount)
               (snd (estimateTokens env (set_skipNextTokenCheck True (set_messages newMessages s3)))))"

text \<open>
  The rounds of a message list, as the summarization protocol describes them: a round is
  a user message with the messages between it and the next user message (or the end).
  What comes before the first user message belongs to no round. \<open>rebuild_rounds\<close> follows
  the words of the protocol, round by round: the user message, then one synthesized
  summary message when the round has messages after the user message and the summary of
  the round is not the empty string. It returns the rebuilt messages, the number of
  summaries and the state. \<open>summaries_nonempty\<close> says that the LLM never answers with an
  empty text.
\<close>

function rounds :: "message list \<Rightarrow> (message \<times> message list) list" where
  "rounds [] = []"
| "rounds (m # ms) =
     (if isUserMessage m
      then (m, takeWhile (\<lambda>x. \<not> isUserMessage x) ms)
             # rounds (dropWhile (\<lambda>x. \<not> isUserMessage x) ms)
      else rounds ms)"
  by pat_completeness auto
termination
  by (relation "measure length") (auto simp: length_dropWhile_le less_Suc_eq_le)

fun rebuild_rounds ::
  "'w env \<Rightarrow> (message \<times> message list) list \<Rightarrow> nat \<Rightarrow> 'w run_state
     \<Rightarrow> message list \<times> nat \<times> 'w run_state" where
  "rebuild_rounds env [] i s = ([], 0, s)"
| "rebuild_rounds env ((u, ex) # rs) i s =
     (if ex = []
      then (case rebuild_rounds env rs (i + 1) s of (ms, k, s') \<Rightarrow> (u # ms, k, s'))
      else (case createSummary env ex (i + 1) s of
              (summaryText, s1) \<Rightarrow>
                (case rebuild_rounds env rs (i + 1) s1 of
                   (ms, k, s2) \<Rightarrow>
                     if summaryText = [] then (u # ms, k, s2)
                     else (u # summaryMessage summaryText # ms, k + 1, s2))))"

definition summaries_nonempty :: "'w env \<Rightarrow> bool" where
  "summaries_nonempty env =
     (\<forall>msgs ts sp w r w'. generate env msgs ts sp w = (Response r, w') \<longrightarrow>
        joined_text (resp_contents r) \<noteq> [])"

subsection \<open>Events of a run\<close>

text \<open>
  \<open>replies_from env prev evs\<close> checks a list of events, oldest first, \<open>prev\<close> being the
  event before the list: an \<open>emaReplyReceived\<close> event is allowed only right after the
  \<open>toolCallFinished\<close> event of a successful \<^verbatim>\<open>ema_reply\<close> call, and the reply it carries
  is the parsed content of that call's result. \<open>event_name\<close> is the name an event is
  emitted under.
\<close>

fun is_reply :: "event \<Rightarrow> bool" where
  "is_reply (emaReplyReceived reply) = True"
| "is_reply e = False"

definition reply_allowed :: "'w env \<Rightarrow> event option \<Rightarrow> event \<Rightarrow> bool" where
  "reply_allowed env prev e =
     (case e of
        emaReplyReceived reply \<Rightarrow>
          (case prev of
             Some (toolCallFinished ok i n res) \<Rightarrow>
               ok \<and> n = ''ema_reply'' \<and> parse_content env (content res) = Inr reply
           | _ \<Rightarrow> False)
      | _ \<Rightarrow> True)"

fun replies_from :: "'w env \<Rightarrow> event option \<Rightarrow> event list \<Rightarrow> bool" where
  "replies_from env prev [] = True"
| "replies_from env prev (e # es) = (reply_allowed env prev e \<and> replies_from env (Some e) es)"

definition replies_ok :: "'w env \<Rightarrow> event list \<Rightarrow> bool" where
  "replies_ok env evs = replies_from env None evs"

definition last_event :: "event option \<Rightarrow> event list \<Rightarrow> event option" where
  "last_event prev evs = (if evs = [] then prev else Some (last evs))"

fun event_name :: "event \<Rightarrow> string" where
  "event_name (tokenEstimationFallbacked e) = ''tokenEstimationFallbacked''"
| "event_name (summarizeMessagesStarted a b c) = ''summarizeMessagesStarted''"
| "event_name (summarizeMessagesFinished_ok a b c d) = ''summarizeMessagesFinished''"
| "event_name summarizeMessagesFinished_failed = ''summarizeMessagesFinished''"
| "event_name (createSummaryFinished_ok n t) = ''createSummaryFinished''"
| "event_name (createSummaryFinished_failed n e) = ''createSummaryFinished''"
| "event_name (stepStarted a b) = ''stepStarted''"
| "event_name (runFinished_ok m) = ''runFinished''"
| "event_name (runFinished_failed m e) = ''runFinished''"
| "event_name (llmResponseReceived r) = ''llmResponseReceived''"
| "event_name (toolCallStarted i n a) = ''toolCallStarted''"
| "event_name (toolCallFinished ok i n r) = ''toolCallFinished''"
| "event_name (emaReplyReceived r) = ''emaReplyReceived''"

subsection \<open>Tool results\<close>

text \<open>
  \<open>ToolResult_invariant\<close> is the invariant of a tool result as the data model states it.
  \<open>stored_invariant name r\<close> is what holds of a result stored in the context under the tool
  name \<open>name\<close>: it differs for a successful \<^verbatim>\<open>ema_reply\<close> result, whose content the
  loop has cleared. \<open>tools_respect_invariant\<close> says that whatever a tool returns satisfies
  the invariant.
\<close>

definition ToolResult_invariant :: "tool_result \<Rightarrow> bool" where
  "ToolResult_invariant r =
     ((success r \<longrightarrow> content r \<noteq> None \<and> error r = None)
      \<and> (\<not> success r \<longrightarrow> error r \<noteq> None))"

definition stored_invariant :: "string \<Rightarrow> tool_result \<Rightarrow> bool" where
  "stored_invariant name r =
     ((\<not> success r \<longrightarrow> error r \<noteq> None)
      \<and> (success r \<longrightarrow> error r = None \<and> (content r = None \<longleftrightarrow> name = ''ema_reply'')))"

fun tool_message_ok :: "message \<Rightarrow> bool" where
  "tool_message_ok (ToolMessage toolCallId name r) = stored_invariant name r"
| "tool_message_ok m = True"

definition tools_respect_invariant :: "'w tool list \<Rightarrow> bool" where
  "tools_respect_invariant ts =
     (\<forall>t \<in> set ts. \<forall>args w r w'. execute t args w = (Returned r, w') \<longrightarrow> ToolResult_invariant r)"

definition context_ok :: "'w run_state \<Rightarrow> bool" where
  "context_ok s = (\<forall>m \<in> set (messages (contextManager s)). tool_message_ok m)"

subsection \<open>Buffer writes\<close>






subsection \<open>States of a run made by the worker\<close>



section \<open>Scenarios\<close>

text \<open>
  Concrete environments and states on which the properties below are evaluated. The
  scripted LLM answers its calls in order from a list; its tokenizer counts one token a
  byte. The reply tool of the single-turn scenario is registered under the name
  \<^verbatim>\<open>ema_reply\<close> and executes as \<open>FinalReplyTool_execute\<close> does.
\<close>

definition scripted_env :: "llm_outcome list \<Rightarrow> nat env" where
  "scripted_env script =
     \<lparr>generate = (\<lambda>msgs ts sp w.
         (if w < length script then script ! w
          else Failed (new_Error ''no more responses''), Suc w)),
      encode_length = (\<lambda>t. Inr (length t)),
      stringify_block = (\<lambda>b. ''{}''),
      stringify_toolCalls = (\<lambda>tcs. ''[]''),
      stringify_result = (\<lambda>r. ''{}''),
      JSON_parse = (\<lambda>t. if t = [] then Inl (new_Error ''Unexpected end of JSON input'')
                         else Inr (JOther (Some ''[object Object]'')))\<rparr>"

definition ema_reply_tool :: "nat tool" where
  "ema_reply_tool =
     \<lparr>tool_name = ''ema_reply'',
      properties = Some [''think'', ''expression'', ''action'', ''response''],
      execute = (\<lambda>args w.
         (Returned (FinalReplyTool_execute (args ! 0) (args ! 1) (args ! 2) (args ! 3)), w))\<rparr>"

definition reply_call :: tool_call where
  "reply_call =
     \<lparr>tc_id = Some ''call_1'', tc_name = ''ema_reply'',
      tc_args = [(''think'', JStr ''t''), (''expression'', JStr ''e''), (''action'', JStr ''a''),
                 (''response'', JStr ''hi'')],
      thoughtSignature = None\<rparr>"

definition reply_response :: llm_response where
  "reply_response =
     \<lparr>resp_contents = [], resp_toolCalls = Some [reply_call], finishReason = ''tool_calls'',
      totalTokens = 12\<rparr>"

definition final_response :: llm_response where
  "final_response =
     \<lparr>resp_contents = [text_block ''done''], resp_toolCalls = None, finishReason = ''stop'',
      totalTokens = 20\<rparr>"

definition single_turn_env :: "nat env" where
  "single_turn_env = scripted_env [Response reply_response, Response final_response]"

definition single_turn_state :: "nat run_state" where
  "single_turn_state =
     \<lparr>contextManager =
        \<lparr>tokenLimit = 10000, tools = [ema_reply_tool],
         messages = [UserMessage [text_block ''hello'']], apiTotalTokens = 0,
         skipNextTokenCheck = False\<rparr>,
      world = 0, emitted = []\<rparr>"

definition single_turn_events :: "event list" where
  "single_turn_events = emitted (snd (run single_turn_env 5 ''You are EMA.'' single_turn_state))"

definition cleared_result :: tool_result where
  "cleared_result = \<lparr>success = True, content = None, error = None\<rparr>"

text \<open>
  Summarization: an LLM that answers every call with the same summary, one that answers
  with no text at all, and a context of three rounds.
\<close>

definition summary_response :: llm_response where
  "summary_response =
     \<lparr>resp_contents = [text_block ''Did the work.''], resp_toolCalls = None,
      finishReason = ''stop'', totalTokens = 30\<rparr>"

definition summarizing_env :: "nat env" where
  "summarizing_env =
     (scripted_env [])\<lparr>generate := (\<lambda>msgs ts sp w. (Response summary_response, Suc w))\<rparr>"

definition silent_response :: llm_response where
  "silent_response =
     \<lparr>resp_contents = [], resp_toolCalls = None, finishReason = ''stop'', totalTokens = 30\<rparr>"

definition silent_env :: "nat env" where
  "silent_env =
     (scripted_env [])\<lparr>generate := (\<lambda>msgs ts sp w. (Response silent_response, Suc w))\<rparr>"

definition three_round_messages :: "message list" where
  "three_round_messages =
     [UserMessage [text_block ''one''],
      ModelMessage [text_block ''looking it up''] (Some [reply_call]),
      ToolMessage (Some ''call_1'') ''get_skill''
        \<lparr>success = True, content = Some ''skill text'', error = None\<rparr>,
      UserMessage [text_block ''two''],
      ModelMessage [text_block ''thinking''] None,
      UserMessage [text_block ''three''],
      ModelMessage [text_block ''answer''] None]"

definition context_state :: "message list \<Rightarrow> int \<Rightarrow> bool \<Rightarrow> nat run_state" where
  "context_state msgs limit skip =
     \<lparr>contextManager =
        \<lparr>tokenLimit = limit, tools = [], messages = msgs, apiTotalTokens = 0,
         skipNextTokenCheck = skip\<rparr>,
      world = 0, emitted = []\<rparr>"

definition three_round_state :: "nat run_state" where
  "three_round_state = context_state three_round_messages 20 False"

definition summary_of_work :: message where
  "summary_of_work = summaryMessage ''Did the work.''"

definition boundary_state :: "nat run_state" where
  "boundary_state = context_state [UserMessage [text_block ''hello'']] 9 False"

definition skipping_state :: "nat run_state" where
  "skipping_state = context_state three_round_messages 20 True"

text \<open>
  The worker: an environment whose writes to the store never fail (the source's), one
  whose write of the message with id 1 fails, an idle worker and a worker in the middle of
  a run.
\<close>

definition demo_actor_env :: actor_env where
  "demo_actor_env =
     \<lparr>format_time = (\<lambda>t. ''2024-01-02 03:04:05''), stringify_reply = (\<lambda>r. ''{}''),
      store_write = in_memory_write\<rparr>"


definition idle_worker :: "unit worker" where
  "idle_worker =
     \<lparr>userId = 1, actorId = 7, config_systemPrompt = ''You are EMA.'', config_baseTools = (),
      currentStatus = idle, agentState = None, buffer = [], queue = [],
      hasEmaReplyInRun = False, currentRunPromise = False, processingQueue = False,
      bufferWritePromise = \<lparr>settled = None, pending = []\<rparr>,
      resumeStateAfterAbort = False, actor_events = [], logged = []\<rparr>"

definition running_state :: "unit AgentState" where
  "running_state =
     \<lparr>systemPrompt = ''You are EMA.'', state_messages = [UserMessage [text_block ''hi'']],
      state_tools = ()\<rparr>"

definition busy_worker :: "unit worker" where
  "busy_worker =
     idle_worker\<lparr>currentStatus := running, agentState := Some running_state,
                 currentRunPromise := True, processingQueue := True\<rparr>"



definition image_block :: content_block where
  "image_block = \<lparr>ctype = ''image'', ctext = ''''\<rparr>"



section \<open>Properties of the context manager\<close>

subsection \<open>Token accounting\<close>

text \<open>
  C8, as amended. \<open>updateApiTokens\<close> overwrites \<open>apiTotalTokens\<close> with the response's
  \<open>totalTokens\<close> whenever \<open>totalTokens\<close> is not zero, a negative count included, and leaves
  the context manager as it is when \<open>totalTokens\<close> is zero.
\<close>

theorem updateApiTokens_nonzero:
  "apiTotalTokens (updateApiTokens resp cm) =
     (if totalTokens resp = 0 then apiTotalTokens cm else totalTokens resp)
   \<and> messages (updateApiTokens resp cm) = messages cm
   \<and> tools (updateApiTokens resp cm) = tools cm
   \<and> tokenLimit (updateApiTokens resp cm) = tokenLimit cm
   \<and> skipNextTokenCheck (updateApiTokens resp cm) = skipNextTokenCheck cm"
  by (simp add: updateApiTokens_def)

text \<open>
  The claim as written fails on a negative count: \<open>totalTokens = -1\<close> is not greater than
  zero, and yet the stored count 7 is overwritten by it.
\<close>

theorem updateApiTokens_negative_overwrites:
  "\<not> 0 < totalTokens
       \<lparr>resp_contents = [], resp_toolCalls = None, finishReason = ''stop'', totalTokens = - 1\<rparr>
   \<and> apiTotalTokens
     (updateApiTokens
        \<lparr>resp_contents = [], resp_toolCalls = None, finishReason = ''stop'', totalTokens = - 1\<rparr>
        \<lparr>tokenLimit = 100, tools = ([] :: unit tool list), messages = [], apiTotalTokens = 7,
         skipNextTokenCheck = False\<rparr>) = - 1"
  by (simp add: updateApiTokens_def)

subsection \<open>Summarization: basic facts\<close>

lemma emit_contextManager [simp]: "contextManager (emit e s) = contextManager s"
  by (simp add: emit_def)

lemma emit_world [simp]: "world (emit e s) = world s"
  by (simp add: emit_def)

lemma emit_emitted [simp]: "emitted (emit e s) = emitted s @ [e]"
  by (simp add: emit_def)

lemma estimateTokens_contextManager [simp]:
  "contextManager (snd (estimateTokens env s)) = contextManager s"
  by (simp add: estimateTokens_def split: sum.splits)

lemma createSummary_contextManager [simp]:
  "contextManager (snd (createSummary env msgs roundNum s)) = contextManager s"
  by (simp add: createSummary_def Let_def split: prod.splits llm_outcome.splits)

lemma createSummary_contextManagerD:
  "createSummary env msgs roundNum s = (summaryText, s1) \<Longrightarrow> contextManager s1 = contextManager s"
  using createSummary_contextManager [of env msgs roundNum s] by simp

lemma summarize_rounds_contextManager:
  "contextManager (snd (snd (summarize_rounds env msgs uis i (nm, k, s)))) = contextManager s"
proof (induction uis arbitrary: i nm k s)
  case Nil
  then show ?case by simp
next
  case (Cons u uis)
  show ?case
    using Cons.IH by (auto simp: Let_def split: prod.splits dest: createSummary_contextManagerD)
qed

lemma summarize_rounds_contextManagerD:
  "summarize_rounds env msgs uis i (nm, k, s) = (nm', k', s') \<Longrightarrow>
   contextManager s' = contextManager s"
  using summarize_rounds_contextManager [of env msgs uis i nm k s] by simp

lemma contextManager_started [simp]: "contextManager (started env s) = contextManager s"
  by (simp add: started_def)

lemma userIndices_of_snoc:
  "userIndices_of (xs @ [x]) = userIndices_of xs @ (if isUserMessage x then [length xs] else [])"
  by (simp add: userIndices_of_def)

lemma userIndices_of_bound: "i \<in> set (userIndices_of xs) \<Longrightarrow> i < length xs"
  by (auto simp: userIndices_of_def dest: set_zip_rightD)

lemma userIndices_of_Nil [simp]: "userIndices_of [] = []"
  by (simp add: userIndices_of_def)

lemma userIndices_of_Cons:
  "userIndices_of (m # ms) =
     (if isUserMessage m then [0] else []) @ map Suc (userIndices_of ms)"
proof -
  have "[0 ..< length (m # ms)] = 0 # map Suc [0 ..< length ms]"
    by (simp add: upt_conv_Cons map_Suc_upt del: upt_Suc)
  then show ?thesis
    by (simp add: userIndices_of_def zip_map2 filter_map o_def case_prod_unfold del: upt_Suc)
qed

lemma userIndices_of_append:
  "userIndices_of (xs @ ys) = userIndices_of xs @ map (\<lambda>j. j + length xs) (userIndices_of ys)"
  by (induction xs) (simp_all add: userIndices_of_Cons o_def)

lemma userIndices_of_no_user:
  "\<forall>x \<in> set xs. \<not> isUserMessage x \<Longrightarrow> userIndices_of xs = []"
  by (induction xs) (simp_all add: userIndices_of_Cons)

lemma userIndices_of_dropWhile:
  "userIndices_of (dropWhile (\<lambda>x. \<not> isUserMessage x) ms) = [] \<Longrightarrow>
   dropWhile (\<lambda>x. \<not> isUserMessage x) ms = []"
proof (cases "dropWhile (\<lambda>x. \<not> isUserMessage x) ms")
  case Nil
  then show ?thesis by simp
next
  case (Cons d ds)
  assume e: "userIndices_of (dropWhile (\<lambda>x. \<not> isUserMessage x) ms) = []"
  have "isUserMessage d" using Cons hd_dropWhile [of "\<lambda>x. \<not> isUserMessage x" ms] by force
  then show ?thesis using e Cons by (simp add: userIndices_of_Cons)
qed

lemma userIndices_of_dropWhile_hd:
  "userIndices_of (dropWhile (\<lambda>x. \<not> isUserMessage x) ms) = j # js \<Longrightarrow> j = 0"
proof (cases "dropWhile (\<lambda>x. \<not> isUserMessage x) ms")
  case Nil
  assume "userIndices_of (dropWhile (\<lambda>x. \<not> isUserMessage x) ms) = j # js"
  then show ?thesis using Nil by simp
next
  case (Cons d ds)
  assume e: "userIndices_of (dropWhile (\<lambda>x. \<not> isUserMessage x) ms) = j # js"
  have "isUserMessage d" using Cons hd_dropWhile [of "\<lambda>x. \<not> isUserMessage x" ms] by force
  then show ?thesis using e Cons by (simp add: userIndices_of_Cons)
qed

lemma map_nth_userIndices_of:
  "map (\<lambda>i. msgs ! i) (userIndices_of msgs) = filter isUserMessage msgs"
proof (induction msgs rule: rev_induct)
  case Nil
  then show ?case by (simp add: userIndices_of_def)
next
  case (snoc x xs)
  have "map (\<lambda>i. (xs @ [x]) ! i) (userIndices_of xs) = map (\<lambda>i. xs ! i) (userIndices_of xs)"
    by (rule map_cong) (auto simp: nth_append dest: userIndices_of_bound)
  then show ?case using snoc by (simp add: userIndices_of_snoc)
qed

lemma set_messages_simps [simp]:
  "messages (contextManager (set_messages ms s)) = ms"
  "skipNextTokenCheck (contextManager (set_messages ms s)) = skipNextTokenCheck (contextManager s)"
  "emitted (set_messages ms s) = emitted s"
  "world (set_messages ms s) = world s"
  by (simp_all add: set_messages_def)

lemma set_skip_simps [simp]:
  "messages (contextManager (set_skipNextTokenCheck b s)) = messages (contextManager s)"
  "skipNextTokenCheck (contextManager (set_skipNextTokenCheck b s)) = b"
  "emitted (set_skipNextTokenCheck b s) = emitted s"
  "world (set_skipNextTokenCheck b s) = world s"
  by (simp_all add: set_skipNextTokenCheck_def)

lemma summarizeMessages_unfold:
  "summarizeMessages env s =
     (if skipNextTokenCheck (contextManager s) then set_skipNextTokenCheck False s
      else if \<not> (int (fst (estimateTokens env s)) > tokenLimit (contextManager s)
                  \<or> apiTotalTokens (contextManager s) > tokenLimit (contextManager s))
      then snd (estimateTokens env s)
      else if length (userIndices_of (messages (contextManager s))) < 1
      then emit summarizeMessagesFinished_failed (started env s)
      else rebuilt_state env s)"
proof -
  obtain est s1 where e: "estimateTokens env s = (est, s1)" by (cases "estimateTokens env s")
  have cm: "contextManager s1 = contextManager s"
    using estimateTokens_contextManager [of env s] e by simp
  show ?thesis
    by (simp add: summarizeMessages_def e cm started_def rebuilt_state_def Let_def
          split: prod.splits)
qed

lemma summarizeMessages_rebuilt:
  assumes "rebuilds env s"
  shows "summarizeMessages env s = rebuilt_state env s"
  using assms by (auto simp: summarizeMessages_unfold rebuilds_def)

lemma summarizeMessages_rebuilt_messages:
  assumes "rebuilds env s"
  shows "messages (contextManager (summarizeMessages env s)) =
     fst (summarize_rounds env (messages (contextManager s))
             (userIndices_of (messages (contextManager s))) 0
             (initial_newMessages (messages (contextManager s)), 0, started env s))"
  by (simp add: summarizeMessages_rebuilt [OF assms] rebuilt_state_def split: prod.splits)

lemma emitted_estimateTokens_length:
  "length (emitted s) \<le> length (emitted (snd (estimateTokens env s)))"
  by (simp add: estimateTokens_def split: sum.splits)

lemma emitted_createSummary_length:
  "length (emitted s) \<le> length (emitted (snd (createSummary env msgs roundNum s)))"
  by (simp add: createSummary_def Let_def split: prod.splits llm_outcome.splits)

lemma emitted_summarize_rounds_length:
  "length (emitted s) \<le> length (emitted (snd (snd (summarize_rounds env msgs uis i (nm, k, s)))))"
proof (induction uis arbitrary: i nm k s)
  case Nil
  then show ?case by simp
next
  case (Cons u uis)
  obtain nm1 k1 s1 where
    step: "summarize_rounds env msgs (u # uis) i (nm, k, s)
             = summarize_rounds env msgs uis (i + 1) (nm1, k1, s1)"
    and s1: "length (emitted s) \<le> length (emitted s1)"
  proof (cases "length (slice msgs (u + 1) (case uis of [] \<Rightarrow> length msgs | n # ns \<Rightarrow> n)) > 0")
    case False
    then show ?thesis using that [of "nm @ [msgs ! u]" k s] by (simp add: Let_def)
  next
    case True
    let ?ex = "slice msgs (u + 1) (case uis of [] \<Rightarrow> length msgs | n # ns \<Rightarrow> n)"
    obtain summ s' where c: "createSummary env ?ex (i + 1) s = (summ, s')"
      by (cases "createSummary env ?ex (i + 1) s")
    have l: "length (emitted s) \<le> length (emitted s')"
      using emitted_createSummary_length [of s env ?ex "i + 1"] c by simp
    show ?thesis
    proof (cases "summ = []")
      case True
      then show ?thesis using that [of "nm @ [msgs ! u]" k s'] \<open>0 < length ?ex\<close> c l
        by (simp add: Let_def)
    next
      case False
      then show ?thesis
        using that [of "(nm @ [msgs ! u]) @ [summaryMessage summ]" "k + 1" s'] \<open>0 < length ?ex\<close> c l
        by (simp add: Let_def)
    qed
  qed
  show ?case using Cons.IH [of s1 "i + 1" nm1 k1] step s1 by simp
qed

text \<open>
  What \<open>rebuilds\<close> means for an observer of the events: the call emits, and the last
  event it emits is \<open>summarizeMessagesFinished\<close> with \<open>ok = true\<close>.
\<close>

lemma rebuilds_iff_finished_ok:
  "rebuilds env s \<longleftrightarrow>
     (emitted (summarizeMessages env s) \<noteq> emitted s
      \<and> (\<exists>oldTokens newTokens userMessageCount summaryCount.
            last (emitted (summarizeMessages env s))
              = summarizeMessagesFinished_ok oldTokens newTokens userMessageCount summaryCount))"
proof (cases "rebuilds env s")
  case True
  obtain nm k s3 where r: "summarize_rounds env (messages (contextManager s))
             (userIndices_of (messages (contextManager s))) 0
             (initial_newMessages (messages (contextManager s)), 0, started env s) = (nm, k, s3)"
    by (metis prod_cases3)
  let ?s4 = "set_skipNextTokenCheck True (set_messages nm s3)"
  have "length (emitted s) < length (emitted (started env s))"
    using emitted_estimateTokens_length [of s env] by (simp add: started_def)
  also have "\<dots> \<le> length (emitted s3)"
    using emitted_summarize_rounds_length [of "started env s" env "messages (contextManager s)"
        "userIndices_of (messages (contextManager s))" 0
        "initial_newMessages (messages (contextManager s))" 0] r by simp
  also have "\<dots> \<le> length (emitted (snd (estimateTokens env ?s4)))"
    using emitted_estimateTokens_length [of ?s4 env] by simp
  finally have "length (emitted s) < length (emitted (summarizeMessages env s))"
    by (simp add: summarizeMessages_rebuilt [OF True] rebuilt_state_def r)
  then have "emitted (summarizeMessages env s) \<noteq> emitted s" by auto
  moreover have "\<exists>a b c d. last (emitted (summarizeMessages env s))
                              = summarizeMessagesFinished_ok a b c d"
    by (simp add: summarizeMessages_rebuilt [OF True] rebuilt_state_def r)
  ultimately show ?thesis using True by blast
next
  case False
  have "emitted (summarizeMessages env s) = emitted s
        \<or> (\<forall>a b c d. last (emitted (summarizeMessages env s))
                         \<noteq> summarizeMessagesFinished_ok a b c d)"
    using False
    by (auto simp: summarizeMessages_unfold rebuilds_def estimateTokens_def started_def
          Suc_le_eq
          split: sum.splits)
  then show ?thesis using False by blast
qed

subsection \<open>When summarization runs\<close>

text \<open>
  C7. \<open>summarizeMessages\<close> with the flag set only clears the flag: the messages, the events
  and the world stay as they are. With the flag clear, the message list changes only if
  the local estimate or the count reported by the API is strictly greater than the limit;
  an estimate equal to the limit, with the reported count not above it, leaves the context
  manager as it is. After a summarization that rebuilds the list the flag is set.
\<close>

theorem summarizeMessages_gate:
  "(skipNextTokenCheck (contextManager s) \<longrightarrow>
      summarizeMessages env s = set_skipNextTokenCheck False s)
   \<and> (\<not> skipNextTokenCheck (contextManager s)
        \<and> messages (contextManager (summarizeMessages env s)) \<noteq> messages (contextManager s) \<longrightarrow>
      int (fst (estimateTokens env s)) > tokenLimit (contextManager s)
      \<or> apiTotalTokens (contextManager s) > tokenLimit (contextManager s))
   \<and> (\<not> skipNextTokenCheck (contextManager s)
        \<and> int (fst (estimateTokens env s)) = tokenLimit (contextManager s)
        \<and> apiTotalTokens (contextManager s) \<le> tokenLimit (contextManager s) \<longrightarrow>
      summarizeMessages env s = snd (estimateTokens env s)
      \<and> contextManager (summarizeMessages env s) = contextManager s)
   \<and> (rebuilds env s \<longrightarrow> skipNextTokenCheck (contextManager (summarizeMessages env s)))"
proof (intro conjI impI)
  assume "skipNextTokenCheck (contextManager s)"
  then show "summarizeMessages env s = set_skipNextTokenCheck False s"
    by (simp add: summarizeMessages_def)
next
  assume a: "\<not> skipNextTokenCheck (contextManager s)
        \<and> messages (contextManager (summarizeMessages env s)) \<noteq> messages (contextManager s)"
  show "int (fst (estimateTokens env s)) > tokenLimit (contextManager s)
      \<or> apiTotalTokens (contextManager s) > tokenLimit (contextManager s)"
  proof (rule ccontr)
    assume n: "\<not> ?thesis"
    obtain est s1 where e: "estimateTokens env s = (est, s1)" by (cases "estimateTokens env s")
    have cm: "contextManager s1 = contextManager s"
      using estimateTokens_contextManager [of env s] e by simp
    have "summarizeMessages env s = s1"
      using a n e cm by (simp add: summarizeMessages_def Let_def)
    then show False using a cm by simp
  qed
next
  assume a: "\<not> skipNextTokenCheck (contextManager s)
        \<and> int (fst (estimateTokens env s)) = tokenLimit (contextManager s)
        \<and> apiTotalTokens (contextManager s) \<le> tokenLimit (contextManager s)"
  obtain est s1 where e: "estimateTokens env s = (est, s1)" by (cases "estimateTokens env s")
  have cm: "contextManager s1 = contextManager s"
    using estimateTokens_contextManager [of env s] e by simp
  show "summarizeMessages env s = snd (estimateTokens env s)"
    using a e cm by (simp add: summarizeMessages_def Let_def)
  then show "contextManager (summarizeMessages env s) = contextManager s"
    by simp
next
  assume "rebuilds env s"
  then show "skipNextTokenCheck (contextManager (summarizeMessages env s))"
    by (simp add: summarizeMessages_rebuilt rebuilt_state_def split: prod.splits)
qed

theorem summarizeMessages_gate_witness:
  "skipNextTokenCheck (contextManager skipping_state)
   \<and> summarizeMessages summarizing_env skipping_state = set_skipNextTokenCheck False skipping_state
   \<and> \<not> skipNextTokenCheck (contextManager boundary_state)
   \<and> int (fst (estimateTokens summarizing_env boundary_state)) = tokenLimit (contextManager boundary_state)
   \<and> apiTotalTokens (contextManager boundary_state) \<le> tokenLimit (contextManager boundary_state)
   \<and> summarizeMessages summarizing_env boundary_state = snd (estimateTokens summarizing_env boundary_state)
   \<and> \<not> skipNextTokenCheck (contextManager three_round_state)
   \<and> messages (contextManager (summarizeMessages summarizing_env three_round_state))
        \<noteq> messages (contextManager three_round_state)
   \<and> tokenLimit (contextManager three_round_state)
        < int (fst (estimateTokens summarizing_env three_round_state))
   \<and> rebuilds summarizing_env three_round_state
   \<and> skipNextTokenCheck (contextManager (summarizeMessages summarizing_env three_round_state))"
proof -
  have s: "skipNextTokenCheck (contextManager skipping_state)" by code_simp
  have b: "\<not> skipNextTokenCheck (contextManager boundary_state)
     \<and> int (fst (estimateTokens summarizing_env boundary_state)) = tokenLimit (contextManager boundary_state)
     \<and> apiTotalTokens (contextManager boundary_state) \<le> tokenLimit (contextManager boundary_state)"
    by code_simp
  have c: "\<not> skipNextTokenCheck (contextManager three_round_state)
     \<and> messages (contextManager (summarizeMessages summarizing_env three_round_state))
        \<noteq> messages (contextManager three_round_state)"
    by code_simp
  have a: "\<not> tokenLimit (contextManager three_round_state)
             < apiTotalTokens (contextManager three_round_state)"
    by code_simp
  have r: "rebuilds summarizing_env three_round_state" by code_simp
  note g1 = summarizeMessages_gate [of skipping_state summarizing_env]
  note g2 = summarizeMessages_gate [of boundary_state summarizing_env]
  note g3 = summarizeMessages_gate [of three_round_state summarizing_env]
  show ?thesis using s b c a r g1 g2 g3 by blast
qed

subsection \<open>User messages survive summarization\<close>

lemma summarize_rounds_subseq:
  "subseq xs nm \<Longrightarrow>
   subseq (xs @ map (\<lambda>i. msgs ! i) uis) (fst (summarize_rounds env msgs uis i (nm, k, s)))"
proof (induction uis arbitrary: i xs nm k s)
  case Nil
  then show ?case by simp
next
  case (Cons u uis)
  have step: "subseq (xs @ [msgs ! u]) (nm @ [msgs ! u])"
    using Cons.prems by (simp add: list_emb_append_mono)
  have step2: "subseq (xs @ [msgs ! u]) ((nm @ [msgs ! u]) @ [m])" for m
    using step list_emb_prefix by blast
  show ?case
    using Cons.IH [OF step] Cons.IH [OF step2]
    by (simp add: Let_def split: prod.splits)
qed

text \<open>
  C3. After a summarization that rebuilds the list, the user messages of the old list,
  in their order, are a subsequence of the new list: each is still there, and they keep
  their relative order.
\<close>

theorem summarizeMessages_keeps_user_messages:
  assumes "rebuilds env s"
  shows "subseq (filter isUserMessage (messages (contextManager s)))
           (messages (contextManager (summarizeMessages env s)))"
proof -
  have "subseq ([] @ map (\<lambda>i. messages (contextManager s) ! i)
                         (userIndices_of (messages (contextManager s))))
          (fst (summarize_rounds env (messages (contextManager s))
             (userIndices_of (messages (contextManager s))) 0
             (initial_newMessages (messages (contextManager s)), 0, started env s)))"
    by (rule summarize_rounds_subseq) simp
  then show ?thesis
    by (simp add: summarizeMessages_rebuilt_messages [OF assms] map_nth_userIndices_of)
qed

theorem summarizeMessages_keeps_user_messages_witness:
  "rebuilds summarizing_env three_round_state
   \<and> subseq [UserMessage [text_block ''one''], UserMessage [text_block ''two''],
              UserMessage [text_block ''three'']]
        (messages (contextManager (summarizeMessages summarizing_env three_round_state)))"
proof -
  have r: "rebuilds summarizing_env three_round_state" by code_simp
  have f: "filter isUserMessage (messages (contextManager three_round_state))
           = [UserMessage [text_block ''one''], UserMessage [text_block ''two''],
              UserMessage [text_block ''three'']]"
    by code_simp
  show ?thesis using summarizeMessages_keeps_user_messages [OF r] r f by simp
qed

subsection \<open>The rebuilt list, round by round\<close>

lemma summarize_rounds_refines:
  "summarize_rounds env (pre @ suf) (map (\<lambda>j. j + length pre) (userIndices_of suf)) i (nm, k, s)
   = (case rebuild_rounds env (rounds suf) i s of (ms, k', s') \<Rightarrow> (nm @ ms, k + k', s'))"
proof (induction suf arbitrary: pre i nm k s rule: rounds.induct)
  case 1
  then show ?case by simp
next
  case (2 m ms)
  let ?tw = "takeWhile (\<lambda>x. \<not> isUserMessage x) ms"
  let ?dw = "dropWhile (\<lambda>x. \<not> isUserMessage x) ms"
  show ?case
  proof (cases "isUserMessage m")
    case False
    have idx: "map (\<lambda>j. j + length pre) (userIndices_of (m # ms))
               = map (\<lambda>j. j + length (pre @ [m])) (userIndices_of ms)"
      using False by (simp add: userIndices_of_Cons o_def)
    have "summarize_rounds env ((pre @ [m]) @ ms)
            (map (\<lambda>j. j + length (pre @ [m])) (userIndices_of ms)) i (nm, k, s)
          = (case rebuild_rounds env (rounds ms) i s of (ms', k', s') \<Rightarrow> (nm @ ms', k + k', s'))"
      using "2.IH"(2) [OF False] .
    then show ?thesis using False idx by simp
  next
    case True
    have ms: "ms = ?tw @ ?dw" by simp
    have uis_ms: "userIndices_of ms = map (\<lambda>j. j + length ?tw) (userIndices_of ?dw)"
    proof -
      have "userIndices_of (?tw @ ?dw) = userIndices_of ?tw @ map (\<lambda>j. j + length ?tw) (userIndices_of ?dw)"
        by (rule userIndices_of_append)
      moreover have "userIndices_of ?tw = []"
        by (rule userIndices_of_no_user) (auto dest: set_takeWhileD)
      ultimately show ?thesis by simp
    qed
    let ?pre' = "pre @ m # ?tw"
    have whole: "pre @ m # ms = ?pre' @ ?dw" by simp
    have idx: "map (\<lambda>j. j + length pre) (userIndices_of (m # ms))
               = length pre # map (\<lambda>j. j + length ?pre') (userIndices_of ?dw)"
      using True by (simp add: userIndices_of_Cons uis_ms o_def)
    have nth: "(pre @ m # ms) ! length pre = m" by simp
    have ex: "slice (pre @ m # ms) (length pre + 1)
                (case map (\<lambda>j. j + length ?pre') (userIndices_of ?dw) of
                  [] \<Rightarrow> length (pre @ m # ms) | n # ns \<Rightarrow> n) = ?tw"
    proof (cases "userIndices_of ?dw")
      case Nil
      then have "?dw = []" by (rule userIndices_of_dropWhile)
      then have "ms = ?tw" using ms by (metis append_Nil2)
      then show ?thesis using Nil by (simp add: slice_def)
    next
      case (Cons j js)
      then have "j = 0" by (rule userIndices_of_dropWhile_hd)
      then have "(case map (\<lambda>j. j + length ?pre') (userIndices_of ?dw) of
                  [] \<Rightarrow> length (pre @ m # ms) | n # ns \<Rightarrow> n) = length ?pre'"
        using Cons by simp
      moreover have "slice (pre @ m # ms) (length pre + 1) (length ?pre') = ?tw"
      proof -
        have "drop (length pre + 1) (pre @ m # ms) = ms" by simp
        moreover have "take (length ?tw) ms = ?tw"
          by (metis append_eq_conv_conj ms)
        ultimately show ?thesis by (simp add: slice_def)
      qed
      ultimately show ?thesis by simp
    qed
    let ?R = "map (\<lambda>j. j + length ?pre') (userIndices_of ?dw)"
    have IH: "summarize_rounds env (pre @ m # ms) ?R i' (nm', k', s')
              = (case rebuild_rounds env (rounds ?dw) i' s' of
                   (ms', k'', s'') \<Rightarrow> (nm' @ ms', k' + k'', s''))" for i' nm' k' s'
      unfolding whole by (rule "2.IH"(1) [OF True])
    have lhs: "summarize_rounds env (pre @ m # ms) (length pre # ?R) i (nm, k, s)
          = (if length ?tw > 0
             then (case createSummary env ?tw (i + 1) s of
                     (summaryText, s1) \<Rightarrow>
                       if summaryText \<noteq> []
                       then summarize_rounds env (pre @ m # ms) ?R (i + 1)
                              ((nm @ [m]) @ [summaryMessage summaryText], k + 1, s1)
                       else summarize_rounds env (pre @ m # ms) ?R (i + 1) (nm @ [m], k, s1))
             else summarize_rounds env (pre @ m # ms) ?R (i + 1) (nm @ [m], k, s))"
      by (simp only: summarize_rounds.simps Let_def nth ex)
    have rhs: "rounds (m # ms) = (m, ?tw) # rounds ?dw"
      using True by simp
    show ?thesis
      unfolding idx lhs rhs IH
      by (simp split: prod.splits)
  qed
qed

lemma map_fst_rounds: "map fst (rounds msgs) = filter isUserMessage msgs"
proof (induction msgs rule: rounds.induct)
  case 1
  then show ?case by simp
next
  case (2 m ms)
  have tw: "filter isUserMessage (takeWhile (\<lambda>x. \<not> isUserMessage x) ms) = []"
    by (auto simp: filter_empty_conv dest: set_takeWhileD)
  have "filter isUserMessage ms
        = filter isUserMessage (takeWhile (\<lambda>x. \<not> isUserMessage x) ms
                                 @ dropWhile (\<lambda>x. \<not> isUserMessage x) ms)"
    by simp
  also have "\<dots> = filter isUserMessage (dropWhile (\<lambda>x. \<not> isUserMessage x) ms)"
    unfolding filter_append tw by simp
  finally show ?case using 2 by simp
qed

lemma length_rounds: "length (rounds msgs) = length (userIndices_of msgs)"
proof -
  have "length (rounds msgs) = length (map fst (rounds msgs))" by simp
  also have "\<dots> = length (map (\<lambda>i. msgs ! i) (userIndices_of msgs))"
    by (simp only: map_fst_rounds map_nth_userIndices_of)
  finally show ?thesis by simp
qed

lemma summary_content_nonempty: "summary_content msgs n \<noteq> []"
  by (simp add: summary_content_def)

lemma createSummary_nonempty:
  assumes "summaries_nonempty env" and "msgs \<noteq> []"
  shows "fst (createSummary env msgs n s) \<noteq> []"
proof -
  let ?q = "[UserMessage [text_block summarizer_intro],
             UserMessage [text_block (summary_prompt (summary_content msgs n))]]"
  obtain outcome w where g: "generate env ?q None None (world s) = (outcome, w)"
    by (cases "generate env ?q None None (world s)")
  show ?thesis
  proof (cases outcome)
    case (Response r)
    then have "joined_text (resp_contents r) \<noteq> []"
      using assms(1) g unfolding summaries_nonempty_def by blast
    then show ?thesis using assms(2) g Response by (simp add: createSummary_def Let_def)
  next
    case (RetryExhausted e a l)
    then show ?thesis using assms(2) g
      by (simp add: createSummary_def Let_def summary_content_nonempty)
  next
    case (Failed e)
    then show ?thesis using assms(2) g
      by (simp add: createSummary_def Let_def summary_content_nonempty)
  qed
qed

lemma rebuild_rounds_count:
  assumes "summaries_nonempty env"
  shows "rebuild_rounds env rs i s = (ms, k, s') \<Longrightarrow>
         k = length (filter (\<lambda>(u, ex). ex \<noteq> []) rs) \<and> length ms = length rs + k"
proof (induction rs arbitrary: i s ms k s')
  case Nil
  then show ?case by simp
next
  case (Cons r rs)
  obtain u ex where r: "r = (u, ex)" by (cases r)
  show ?case
  proof (cases "ex = []")
    case True
    obtain ms1 k1 s1 where rr: "rebuild_rounds env rs (i + 1) s = (ms1, k1, s1)"
      by (metis prod_cases3)
    then show ?thesis using Cons.IH [OF rr] Cons.prems r True by auto
  next
    case False
    obtain summ s1 where c: "createSummary env ex (i + 1) s = (summ, s1)"
      by (cases "createSummary env ex (i + 1) s")
    have ne: "summ \<noteq> []" using createSummary_nonempty [OF assms False, of "i + 1" s] c by simp
    obtain ms1 k1 s2 where rr: "rebuild_rounds env rs (i + 1) s1 = (ms1, k1, s2)"
      by (metis prod_cases3)
    then show ?thesis using Cons.IH [OF rr] Cons.prems r False c ne by auto
  qed
qed

lemma summaries_nonempty_summarizing_env: "summaries_nonempty summarizing_env"
  by (simp add: summaries_nonempty_def summarizing_env_def summary_response_def joined_text_def
        text_block_def isText_def)

text \<open>
  C6, as amended. A summarization that rebuilds the list leaves the first message when it
  is no user message, and then what \<open>rebuild_rounds\<close> makes of the rounds: for each user
  message in order the user message and, when at least one message lies between it and the
  next user message (or the end) and the summary of the round is not the empty string, one
  synthesized user message whose single text block is the tag, a blank line and the
  summary. The event that ends the summarization carries the number of user messages and
  the number of summaries. When the LLM never answers with an empty text, there is one
  summary for every round that has execution messages; so for a context that starts with a
  user message and has 3 user messages, each followed by execution messages, the rebuilt
  list has 6 messages and the number of summaries is 3.
\<close>

theorem summarizeMessages_rebuilds_by_rounds:
  assumes "rebuilds env s"
  shows "case rebuild_rounds env (rounds (messages (contextManager s))) 0 (started env s) of
           (ms, summaryCount, s') \<Rightarrow>
             messages (contextManager (summarizeMessages env s))
               = initial_newMessages (messages (contextManager s)) @ ms
             \<and> (\<exists>oldTokens newTokens.
                   last (emitted (summarizeMessages env s))
                     = summarizeMessagesFinished_ok oldTokens newTokens
                         (length (rounds (messages (contextManager s)))) summaryCount)
             \<and> (summaries_nonempty env \<longrightarrow>
                   summaryCount
                     = length (filter (\<lambda>(u, ex). ex \<noteq> []) (rounds (messages (contextManager s))))
                   \<and> length ms = length (rounds (messages (contextManager s))) + summaryCount)
             \<and> (summaries_nonempty env
                  \<and> isUserMessage (hd (messages (contextManager s)))
                  \<and> length (rounds (messages (contextManager s))) = 3
                  \<and> list_all (\<lambda>(u, ex). ex \<noteq> []) (rounds (messages (contextManager s))) \<longrightarrow>
                   length (messages (contextManager (summarizeMessages env s))) = 6
                   \<and> summaryCount = 3)"
proof -
  let ?msgs = "messages (contextManager s)"
  obtain ms k s' where rr: "rebuild_rounds env (rounds ?msgs) 0 (started env s) = (ms, k, s')"
    by (metis prod_cases3)
  have "summarize_rounds env ([] @ ?msgs) (map (\<lambda>j. j + length ([] :: message list))
           (userIndices_of ?msgs)) 0 (initial_newMessages ?msgs, 0, started env s)
        = (case rebuild_rounds env (rounds ?msgs) 0 (started env s) of
             (ms, k', s') \<Rightarrow> (initial_newMessages ?msgs @ ms, 0 + k', s'))"
    by (rule summarize_rounds_refines)
  then have sr: "summarize_rounds env ?msgs (userIndices_of ?msgs) 0
                   (initial_newMessages ?msgs, 0, started env s)
                 = (initial_newMessages ?msgs @ ms, k, s')"
    by (simp add: rr)
  have msgs': "messages (contextManager (summarizeMessages env s)) = initial_newMessages ?msgs @ ms"
    by (simp add: summarizeMessages_rebuilt [OF assms] rebuilt_state_def sr)
  have ev: "\<exists>oldTokens newTokens.
              last (emitted (summarizeMessages env s))
                = summarizeMessagesFinished_ok oldTokens newTokens (length (rounds ?msgs)) k"
    by (simp add: summarizeMessages_rebuilt [OF assms] rebuilt_state_def sr length_rounds)
  have cnt: "k = length (filter (\<lambda>(u, ex). ex \<noteq> []) (rounds ?msgs))
             \<and> length ms = length (rounds ?msgs) + k" if "summaries_nonempty env"
    using rebuild_rounds_count [OF that rr] .
  have three: "length (messages (contextManager (summarizeMessages env s))) = 6 \<and> k = 3"
    if h: "summaries_nonempty env \<and> isUserMessage (hd ?msgs) \<and> length (rounds ?msgs) = 3
           \<and> list_all (\<lambda>(u, ex). ex \<noteq> []) (rounds ?msgs)"
  proof -
    have "filter (\<lambda>(u, ex). ex \<noteq> []) (rounds ?msgs) = rounds ?msgs"
      using h by (simp add: list_all_iff filter_id_conv)
    then have k3: "k = 3" and lms: "length ms = 6" using cnt h by simp_all
    have "?msgs \<noteq> []" using h by auto
    then have "initial_newMessages ?msgs = []"
      using h by (cases ?msgs) (simp_all add: initial_newMessages_def)
    then show ?thesis using msgs' k3 lms by simp
  qed
  show ?thesis
    unfolding rr prod.case using msgs' ev cnt three by blast
qed

theorem summarizeMessages_rebuilds_by_rounds_witness:
  "rebuilds summarizing_env three_round_state
   \<and> summaries_nonempty summarizing_env
   \<and> isUserMessage (hd (messages (contextManager three_round_state)))
   \<and> length (rounds (messages (contextManager three_round_state))) = 3
   \<and> list_all (\<lambda>(u, ex). ex \<noteq> []) (rounds (messages (contextManager three_round_state)))
   \<and> length (messages (contextManager (summarizeMessages summarizing_env three_round_state))) = 6
   \<and> messages (contextManager (summarizeMessages summarizing_env three_round_state))
       = [UserMessage [text_block ''one''], summary_of_work,
          UserMessage [text_block ''two''], summary_of_work,
          UserMessage [text_block ''three''], summary_of_work]"
proof -
  have r: "rebuilds summarizing_env three_round_state" by code_simp
  have n: "summaries_nonempty summarizing_env" by (rule summaries_nonempty_summarizing_env)
  have u: "isUserMessage (hd (messages (contextManager three_round_state)))" by code_simp
  have l: "length (rounds (messages (contextManager three_round_state))) = 3" by code_simp
  have a: "list_all (\<lambda>(u, ex). ex \<noteq> []) (rounds (messages (contextManager three_round_state)))"
    by code_simp
  have six: "length (messages (contextManager (summarizeMessages summarizing_env three_round_state))) = 6"
    using summarizeMessages_rebuilds_by_rounds [OF r] n u l a
    by (auto split: prod.splits)
  have m: "messages (contextManager (summarizeMessages summarizing_env three_round_state))
       = [UserMessage [text_block ''one''], summary_of_work,
          UserMessage [text_block ''two''], summary_of_work,
          UserMessage [text_block ''three''], summary_of_work]"
    by code_simp
  show ?thesis using r n u l a six m by simp
qed

text \<open>
  The claim as written fails in two ways. When the LLM answers with no text, the round of
  a user message followed by a model message gets no summary: the rebuilt list is the user
  message alone and the number of summaries is 0. And when the context starts with a
  message that is no user message, that message is kept, so 3 user messages, each followed
  by execution messages, give 7 messages.
\<close>

theorem summary_skipped_or_prelude_kept:
  "messages (contextManager (summarizeMessages silent_env
      (context_state [UserMessage [text_block ''one''], ModelMessage [text_block ''working''] None]
         5 False)))
     = [UserMessage [text_block ''one'']]
   \<and> last (emitted (summarizeMessages silent_env
      (context_state [UserMessage [text_block ''one''], ModelMessage [text_block ''working''] None]
         5 False)))
     = summarizeMessagesFinished_ok 18 7 1 0
   \<and> length (messages (contextManager (summarizeMessages summarizing_env
      (context_state (ModelMessage [text_block ''prelude''] None # three_round_messages) 20 False))))
     = 7"
  by code_simp

section \<open>Properties of the agent loop\<close>

subsection \<open>Invariants of a run\<close>

lemma run_from_preserves:
  assumes sm: "\<And>s. P s \<Longrightarrow> P (summarizeMessages env s)"
    and em: "\<And>s e. \<not> is_reply e \<Longrightarrow> P s \<Longrightarrow> P (emit e s)"
    and wd: "\<And>s w. P s \<Longrightarrow> P (s\<lparr>world := w\<rparr>)"
    and am: "\<And>s resp. P s \<Longrightarrow>
               P (s\<lparr>contextManager :=
                      addModelMessage resp (updateApiTokens resp (contextManager s))\<rparr>)"
    and tc: "\<And>s tcs. P s \<Longrightarrow> P (snd (run_tool_calls env tcs s))"
    and init: "P s"
  shows "P (snd (run_from env maxSteps sysPrompt step s))"
  using init
proof (induction n \<equiv> "nat (maxSteps - step)" arbitrary: step s)
  case 0
  then have "\<not> step < maxSteps" by simp
  then show ?case using "0.prems" by (subst run_from.simps) (simp add: em)
next
  case (Suc n)
  then have lt: "step < maxSteps" by linarith
  have n: "n = nat (maxSteps - (step + 1))" using Suc.hyps(2) by linarith
  let ?s2 = "emit (stepStarted (step + 1) maxSteps) (summarizeMessages env s)"
  have p2: "P ?s2" using Suc.prems by (simp add: sm em)
  obtain outcome w where g: "generate env (messages (contextManager ?s2))
      (Some (tools (contextManager ?s2))) (Some sysPrompt) (world ?s2) = (outcome, w)"
    by (cases "generate env (messages (contextManager ?s2))
      (Some (tools (contextManager ?s2))) (Some sysPrompt) (world ?s2)")
  have p2w: "P (?s2\<lparr>world := w\<rparr>)" using p2 by (rule wd)
  show ?case
  proof (cases outcome)
    case (RetryExhausted err attempts lastException)
    then show ?thesis using lt g p2w by (subst run_from.simps) (simp add: Let_def em)
  next
    case (Failed err)
    then show ?thesis using lt g p2w by (subst run_from.simps) (simp add: Let_def em)
  next
    case (Response resp)
    let ?s3 = "emit (llmResponseReceived resp) (?s2\<lparr>world := w\<rparr>)"
    let ?s4 = "?s3\<lparr>contextManager :=
                   addModelMessage resp (updateApiTokens resp (contextManager ?s3))\<rparr>"
    have p4: "P ?s4" using p2w by (intro am em) simp_all
    show ?thesis
    proof (cases "resp_toolCalls resp")
      case None
      then show ?thesis using lt g Response p4
        by (subst run_from.simps) (simp add: Let_def em)
    next
      case (Some toolCalls)
      show ?thesis
      proof (cases "length toolCalls = 0")
        case True
        then show ?thesis using lt g Response Some p4
          by (subst run_from.simps) (simp add: Let_def em)
      next
        case False
        obtain r s5 where t: "run_tool_calls env toolCalls ?s4 = (r, s5)"
          by (cases "run_tool_calls env toolCalls ?s4")
        have p5: "P s5" using tc [OF p4, of toolCalls] t by simp
        show ?thesis
        proof (cases r)
          case (Some err)
          then show ?thesis
            using lt g Response \<open>resp_toolCalls resp = Some toolCalls\<close> False t p5
            by (subst run_from.simps) (simp add: Let_def)
        next
          case None
          have "P (snd (run_from env maxSteps sysPrompt (step + 1) s5))"
            using Suc.hyps(1) [OF n p5] .
          then show ?thesis
            using lt g Response \<open>resp_toolCalls resp = Some toolCalls\<close> False t None
            by (subst run_from.simps) (simp add: Let_def)
        qed
      qed
    qed
  qed
qed

subsection \<open>The reply event and the end of the tool call\<close>

lemma reply_allowed_other [simp]: "\<not> is_reply e \<Longrightarrow> reply_allowed env prev e"
  by (cases e) (simp_all add: reply_allowed_def)

lemma reply_allowed_finish [simp]:
  "reply_allowed env (Some (toolCallFinished ok i n res)) (emaReplyReceived reply)
   = (ok \<and> n = ''ema_reply'' \<and> parse_content env (content res) = Inr reply)"
  by (simp add: reply_allowed_def)

lemma replies_from_append:
  "replies_from env prev (xs @ ys)
   = (replies_from env prev xs \<and> replies_from env (last_event prev xs) ys)"
  by (induction xs arbitrary: prev) (auto simp: last_event_def)

lemma replies_ok_append [simp]:
  "replies_ok env (xs @ ys) = (replies_ok env xs \<and> replies_from env (last_event None xs) ys)"
  by (simp add: replies_ok_def replies_from_append)

lemma replies_ok_estimateTokens [simp]:
  "replies_ok env (emitted (snd (estimateTokens env s))) = replies_ok env (emitted s)"
  by (simp add: estimateTokens_def split: sum.splits)

lemma replies_ok_estimateTokensD:
  "estimateTokens env s = (n, s') \<Longrightarrow> replies_ok env (emitted s') = replies_ok env (emitted s)"
  using replies_ok_estimateTokens [of env s] by simp

lemma replies_ok_createSummary [simp]:
  "replies_ok env (emitted (snd (createSummary env msgs roundNum s))) = replies_ok env (emitted s)"
  by (simp add: createSummary_def Let_def split: prod.splits llm_outcome.splits)

lemma replies_ok_createSummaryD:
  "createSummary env msgs roundNum s = (summaryText, s1) \<Longrightarrow>
   replies_ok env (emitted s1) = replies_ok env (emitted s)"
  using replies_ok_createSummary [of env msgs roundNum s] by simp

lemma replies_ok_summarize_rounds:
  "replies_ok env (emitted (snd (snd (summarize_rounds env msgs uis i (nm, k, s)))))
   = replies_ok env (emitted s)"
proof (induction uis arbitrary: i nm k s)
  case Nil
  then show ?case by simp
next
  case (Cons u uis)
  show ?case
    using Cons.IH by (auto simp: Let_def split: prod.splits dest: replies_ok_createSummaryD)
qed

lemma replies_ok_summarize_roundsD:
  "summarize_rounds env msgs uis i (nm, k, s) = (nm', k', s') \<Longrightarrow>
   replies_ok env (emitted s') = replies_ok env (emitted s)"
  using replies_ok_summarize_rounds [of env msgs uis i nm k s] by simp

lemma replies_ok_started [simp]:
  "replies_ok env (emitted (started env s)) = replies_ok env (emitted s)"
  by (simp add: started_def)

lemma replies_ok_rebuilt_state [simp]:
  "replies_ok env (emitted (rebuilt_state env s)) = replies_ok env (emitted s)"
proof -
  obtain nm k s3 where r: "summarize_rounds env (messages (contextManager s))
             (userIndices_of (messages (contextManager s))) 0
             (initial_newMessages (messages (contextManager s)), 0, started env s) = (nm, k, s3)"
    by (metis prod_cases3)
  have "replies_ok env (emitted s3) = replies_ok env (emitted s)"
    using replies_ok_summarize_roundsD [OF r] by simp
  then show ?thesis by (simp add: rebuilt_state_def r)
qed

lemma replies_ok_summarizeMessages [simp]:
  "replies_ok env (emitted (summarizeMessages env s)) = replies_ok env (emitted s)"
  by (simp add: summarizeMessages_unfold)

lemma replies_ok_run_tool_call:
  "replies_ok env (emitted s) \<Longrightarrow> replies_ok env (emitted (snd (run_tool_call env tc s)))"
  by (auto simp: run_tool_call_def Let_def add_tool_message_def
        split: prod.splits sum.splits)

lemma replies_ok_run_tool_calls:
  "replies_ok env (emitted s) \<Longrightarrow> replies_ok env (emitted (snd (run_tool_calls env tcs s)))"
proof (induction tcs arbitrary: s)
  case Nil
  then show ?case by simp
next
  case (Cons tc tcs)
  have "replies_ok env (emitted (snd (run_tool_call env tc s)))"
    using Cons.prems by (rule replies_ok_run_tool_call)
  then show ?case
    using Cons.IH [of "snd (run_tool_call env tc s)"]
    by (auto split: prod.splits option.splits)
qed

lemma replies_ok_run_from:
  "replies_ok env (emitted s) \<Longrightarrow>
   replies_ok env (emitted (snd (run_from env maxSteps sysPrompt step s)))"
  by (rule run_from_preserves [where P = "\<lambda>s. replies_ok env (emitted s)"])
     (simp_all add: replies_ok_run_tool_calls)

lemma replies_from_nth:
  "replies_from env prev evs \<Longrightarrow> i < length evs \<Longrightarrow> evs ! i = emaReplyReceived reply \<Longrightarrow>
   \<exists>tid res. (if i = 0 then prev else Some (evs ! (i - 1)))
                 = Some (toolCallFinished True tid ''ema_reply'' res)
             \<and> parse_content env (content res) = Inr reply"
proof (induction evs arbitrary: prev i)
  case Nil
  then show ?case by simp
next
  case (Cons e evs)
  show ?case
  proof (cases i)
    case 0
    then have "reply_allowed env prev (emaReplyReceived reply)" using Cons.prems by simp
    then show ?thesis using 0
      by (auto simp: reply_allowed_def split: option.splits event.splits)
  next
    case (Suc j)
    have "\<exists>tid res. (if j = 0 then Some e else Some (evs ! (j - 1)))
                 = Some (toolCallFinished True tid ''ema_reply'' res)
             \<and> parse_content env (content res) = Inr reply"
      using Cons.IH [of "Some e" j] Cons.prems Suc by simp
    then show ?thesis using Suc by (cases j) auto
  qed
qed

text \<open>
  C1, as amended. In the events of a run, every \<open>emaReplyReceived\<close> event stands right
  after the \<open>toolCallFinished\<close> event (with \<open>ok = true\<close>) of an \<^verbatim>\<open>ema_reply\<close> call, and
  the reply it carries is the parsed content of that call's result. And every successful
  call of \<^verbatim>\<open>ema_reply\<close> whose content parses emits, in this order, \<open>toolCallStarted\<close>,
  \<open>toolCallFinished\<close> and \<open>emaReplyReceived\<close>: the reply event comes after the
  \<open>toolCallFinished\<close> event of its call, not before it.
\<close>

theorem reply_after_toolCallFinished:
  assumes "emitted s = []"
  shows "(\<forall>i reply. i < length (emitted (snd (run env maxSteps sysPrompt s)))
              \<and> emitted (snd (run env maxSteps sysPrompt s)) ! i = emaReplyReceived reply \<longrightarrow>
            0 < i
            \<and> (\<exists>tid res. emitted (snd (run env maxSteps sysPrompt s)) ! (i - 1)
                             = toolCallFinished True tid ''ema_reply'' res
                         \<and> parse_content env (content res) = Inr reply))
         \<and> (\<forall>s' tc res w reply.
               tc_name tc = ''ema_reply''
               \<and> execute_tool (contextManager s') tc (world s') = (res, w)
               \<and> success res \<and> parse_content env (content res) = Inr reply \<longrightarrow>
               emitted (snd (run_tool_call env tc s'))
               = emitted s'
                 @ [toolCallStarted (id_or_empty (tc_id tc)) ''ema_reply'' (tc_args tc),
                    toolCallFinished True (id_or_empty (tc_id tc)) ''ema_reply'' res,
                    emaReplyReceived reply])"
proof (intro conjI allI impI)
  fix i reply
  let ?evs = "emitted (snd (run env maxSteps sysPrompt s))"
  assume a: "i < length ?evs \<and> ?evs ! i = emaReplyReceived reply"
  have "replies_ok env (emitted s)" using assms by (simp add: replies_ok_def)
  then have "replies_from env None ?evs"
    unfolding run_def replies_ok_def [symmetric] by (rule replies_ok_run_from)
  then have ex: "\<exists>tid res. (if i = 0 then None else Some (?evs ! (i - 1)))
                 = Some (toolCallFinished True tid ''ema_reply'' res)
             \<and> parse_content env (content res) = Inr reply"
    using a by (intro replies_from_nth) simp_all
  then show "0 < i" by (cases "i = 0") auto
  show "\<exists>tid res. ?evs ! (i - 1) = toolCallFinished True tid ''ema_reply'' res
                 \<and> parse_content env (content res) = Inr reply"
    using ex by (cases "i = 0") auto
next
  fix s' :: "'a run_state" and tc res w reply
  assume "tc_name tc = ''ema_reply''
               \<and> execute_tool (contextManager s') tc (world s') = (res, w)
               \<and> success res \<and> parse_content env (content res) = Inr reply"
  then show "emitted (snd (run_tool_call env tc s'))
               = emitted s'
                 @ [toolCallStarted (id_or_empty (tc_id tc)) ''ema_reply'' (tc_args tc),
                    toolCallFinished True (id_or_empty (tc_id tc)) ''ema_reply'' res,
                    emaReplyReceived reply]"
    by (simp add: run_tool_call_def Let_def add_tool_message_def)
qed

theorem reply_after_toolCallFinished_witness:
  "emitted single_turn_state = []
   \<and> single_turn_events ! 4 = emaReplyReceived (JOther (Some ''[object Object]''))
   \<and> (\<exists>tid res. single_turn_events ! 3 = toolCallFinished True tid ''ema_reply'' res
          \<and> parse_content single_turn_env (content res) = Inr (JOther (Some ''[object Object]'')))"
proof -
  have e: "emitted single_turn_state = []" by code_simp
  have l: "4 < length single_turn_events" by code_simp
  have r: "single_turn_events ! 4 = emaReplyReceived (JOther (Some ''[object Object]''))"
    by code_simp
  have "\<exists>tid res. single_turn_events ! (4 - 1) = toolCallFinished True tid ''ema_reply'' res
          \<and> parse_content single_turn_env (content res) = Inr (JOther (Some ''[object Object]''))"
    using reply_after_toolCallFinished [OF e, of single_turn_env 5 "''You are EMA.''"] l r
    unfolding single_turn_events_def by blast
  then show ?thesis using e r by simp
qed

text \<open>
  The claim as written fails on the single-turn scenario: the LLM asks for one
  \<^verbatim>\<open>ema_reply\<close> call and then answers without tool calls; \<open>toolCallFinished\<close> is the
  fourth event and \<open>emaReplyReceived\<close> the fifth.
\<close>

theorem single_turn_event_order:
  "map event_name single_turn_events =
     [''stepStarted'', ''llmResponseReceived'', ''toolCallStarted'', ''toolCallFinished'',
      ''emaReplyReceived'', ''stepStarted'', ''llmResponseReceived'', ''runFinished'']"
  by code_simp

subsection \<open>Tool results stored in the context\<close>

lemma toolDict_in_tools: "toolDict cm name = Some t \<Longrightarrow> t \<in> set (tools cm)"
  by (auto simp: toolDict_def dest!: map_of_SomeD)

lemma execute_tool_invariant:
  assumes "tools_respect_invariant (tools cm)" and "execute_tool cm tc w = (r, w')"
  shows "ToolResult_invariant r"
proof (cases "toolDict cm (tc_name tc)")
  case None
  then show ?thesis using assms(2)
    by (auto simp: execute_tool_def unknown_tool_result_def ToolResult_invariant_def)
next
  case (Some t)
  then have t: "t \<in> set (tools cm)" by (rule toolDict_in_tools)
  obtain out w1 where e: "execute t (positionalArgs t (tc_args tc)) w = (out, w1)"
    by (cases "execute t (positionalArgs t (tc_args tc)) w")
  show ?thesis
  proof (cases out)
    case (Returned r1)
    then have "ToolResult_invariant r1"
      using assms(1) t e unfolding tools_respect_invariant_def by blast
    then show ?thesis using assms(2) Some e Returned by (simp add: execute_tool_def)
  next
    case (Threw err)
    then show ?thesis using assms(2) Some e
      by (auto simp: execute_tool_def failed_tool_result_def ToolResult_invariant_def)
  qed
qed

lemma tools_estimateTokens [simp]:
  "tools (contextManager (snd (estimateTokens env s))) = tools (contextManager s)"
  by simp

lemma tools_set_messages [simp]:
  "tools (contextManager (set_messages ms s)) = tools (contextManager s)"
  "tools (contextManager (set_skipNextTokenCheck b s)) = tools (contextManager s)"
  by (simp_all add: set_messages_def set_skipNextTokenCheck_def)

lemma tools_rebuilt_state [simp]:
  "tools (contextManager (rebuilt_state env s)) = tools (contextManager s)"
  by (auto simp: rebuilt_state_def split: prod.splits dest!: summarize_rounds_contextManagerD)

lemma tools_summarizeMessages [simp]:
  "tools (contextManager (summarizeMessages env s)) = tools (contextManager s)"
  by (simp add: summarizeMessages_unfold)

lemma summarize_rounds_step:
  "\<exists>nm1 k1 s1.
     summarize_rounds env msgs (u # uis) i (nm, k, s)
       = summarize_rounds env msgs uis (i + 1) (nm1, k1, s1)
     \<and> (nm1 = nm @ [msgs ! u] \<or> (\<exists>summaryText. nm1 = nm @ [msgs ! u, summaryMessage summaryText]))"
  by (auto simp: Let_def split: prod.splits)

lemma summarize_rounds_members:
  "\<forall>u \<in> set uis. u < length msgs \<Longrightarrow>
   m \<in> set (fst (summarize_rounds env msgs uis i (nm, k, s))) \<Longrightarrow>
   m \<in> set nm \<or> m \<in> set msgs \<or> isUserMessage m"
proof (induction uis arbitrary: i nm k s)
  case Nil
  then show ?case by simp
next
  case (Cons u uis)
  have u: "msgs ! u \<in> set msgs" using Cons.prems(1) by simp
  have rest: "\<forall>u \<in> set uis. u < length msgs" using Cons.prems(1) by simp
  obtain nm1 k1 s1 where
    step: "summarize_rounds env msgs (u # uis) i (nm, k, s)
             = summarize_rounds env msgs uis (i + 1) (nm1, k1, s1)"
    and nm1: "nm1 = nm @ [msgs ! u] \<or> (\<exists>summaryText. nm1 = nm @ [msgs ! u, summaryMessage summaryText])"
    using summarize_rounds_step [of env msgs u uis i nm k s] by blast
  have "m \<in> set nm1 \<or> m \<in> set msgs \<or> isUserMessage m"
    using Cons.IH [OF rest, of "i + 1" nm1 k1 s1] Cons.prems(2) step by simp
  then show ?case using nm1 u by (auto simp: summaryMessage_def)
qed

lemma initial_newMessages_members:
  "m \<in> set (initial_newMessages msgs) \<Longrightarrow> m \<in> set msgs"
  by (auto simp: initial_newMessages_def split: if_splits)

lemma rebuilt_state_members:
  assumes "m \<in> set (messages (contextManager (rebuilt_state env s)))"
  shows "m \<in> set (messages (contextManager s)) \<or> isUserMessage m"
proof -
  obtain nm k s3 where r: "summarize_rounds env (messages (contextManager s))
             (userIndices_of (messages (contextManager s))) 0
             (initial_newMessages (messages (contextManager s)), 0, started env s) = (nm, k, s3)"
    by (metis prod_cases3)
  have "m \<in> set nm" using assms by (simp add: rebuilt_state_def r)
  then have "m \<in> set (fst (summarize_rounds env (messages (contextManager s))
             (userIndices_of (messages (contextManager s))) 0
             (initial_newMessages (messages (contextManager s)), 0, started env s)))"
    by (simp add: r)
  then have "m \<in> set (initial_newMessages (messages (contextManager s)))
         \<or> m \<in> set (messages (contextManager s)) \<or> isUserMessage m"
    by (rule summarize_rounds_members [rotated]) (auto dest: userIndices_of_bound)
  then show ?thesis by (auto dest: initial_newMessages_members)
qed

lemma summarizeMessages_members:
  "m \<in> set (messages (contextManager (summarizeMessages env s))) \<Longrightarrow>
   m \<in> set (messages (contextManager s)) \<or> isUserMessage m"
  by (auto simp: summarizeMessages_unfold split: if_splits dest: rebuilt_state_members)

lemma tool_message_ok_user: "isUserMessage m \<Longrightarrow> tool_message_ok m"
  by (cases m) simp_all

lemma context_ok_summarizeMessages:
  "context_ok s \<Longrightarrow> context_ok (summarizeMessages env s)"
  by (auto simp: context_ok_def dest!: summarizeMessages_members intro: tool_message_ok_user)

lemma run_tool_call_tools [simp]:
  "tools (contextManager (snd (run_tool_call env tc s))) = tools (contextManager s)"
  by (auto simp: run_tool_call_def Let_def add_tool_message_def addToolMessage_def
        split: prod.splits sum.splits)

lemma run_tool_call_toolsD:
  "run_tool_call env tc s = (r, s') \<Longrightarrow> tools (contextManager s') = tools (contextManager s)"
  using run_tool_call_tools [of env tc s] by simp

lemma run_tool_call_context_ok:
  assumes "tools_respect_invariant (tools (contextManager s))" and "context_ok s"
  shows "context_ok (snd (run_tool_call env tc s))"
proof -
  obtain r w where e: "execute_tool (contextManager s) tc (world s) = (r, w)"
    by (cases "execute_tool (contextManager s) tc (world s)")
  have inv: "ToolResult_invariant r" using assms(1) e by (rule execute_tool_invariant)
  show ?thesis
    using assms(2) inv e
    by (auto simp: run_tool_call_def Let_def add_tool_message_def addToolMessage_def context_ok_def
          ToolResult_invariant_def stored_invariant_def
          split: sum.splits)
qed

lemma run_tool_calls_context_ok:
  "tools_respect_invariant (tools (contextManager s)) \<Longrightarrow> context_ok s \<Longrightarrow>
   context_ok (snd (run_tool_calls env tcs s))
   \<and> tools (contextManager (snd (run_tool_calls env tcs s))) = tools (contextManager s)"
proof (induction tcs arbitrary: s)
  case Nil
  then show ?case by simp
next
  case (Cons tc tcs)
  have a: "context_ok (snd (run_tool_call env tc s))"
    using Cons.prems by (rule run_tool_call_context_ok)
  have b: "tools_respect_invariant (tools (contextManager (snd (run_tool_call env tc s))))"
    using Cons.prems(1) by simp
  show ?case
    using Cons.IH [OF b a] a
    by (auto split: prod.splits option.splits dest: run_tool_call_toolsD)
qed

lemma tools_respect_run_tool_calls:
  "tools_respect_invariant (tools (contextManager s)) \<and> context_ok s \<Longrightarrow>
   tools_respect_invariant (tools (contextManager (snd (run_tool_calls env tcs s))))
   \<and> context_ok (snd (run_tool_calls env tcs s))"
  using run_tool_calls_context_ok [of s env tcs] by simp

lemma context_ok_run_from:
  assumes "tools_respect_invariant (tools (contextManager s))" and "context_ok s"
  shows "context_ok (snd (run_from env maxSteps sysPrompt step s))"
proof -
  have "tools_respect_invariant (tools (contextManager (snd (run_from env maxSteps sysPrompt step s))))
        \<and> context_ok (snd (run_from env maxSteps sysPrompt step s))"
  proof (rule run_from_preserves
      [where P = "\<lambda>s. tools_respect_invariant (tools (contextManager s)) \<and> context_ok s"])
    show "\<And>s. tools_respect_invariant (tools (contextManager s)) \<and> context_ok s \<Longrightarrow>
         tools_respect_invariant (tools (contextManager (summarizeMessages env s))) \<and>
         context_ok (summarizeMessages env s)"
      by (simp add: context_ok_summarizeMessages)
    show "\<And>s tcs. tools_respect_invariant (tools (contextManager s)) \<and> context_ok s \<Longrightarrow>
         tools_respect_invariant (tools (contextManager (snd (run_tool_calls env tcs s)))) \<and>
         context_ok (snd (run_tool_calls env tcs s))"
      by (rule tools_respect_run_tool_calls)
    show "tools_respect_invariant (tools (contextManager s)) \<and> context_ok s"
      using assms by simp
  qed (simp_all add: context_ok_def addModelMessage_def updateApiTokens_def response_message_def)
  then show ?thesis by simp
qed

lemma FinalReplyTool_execute_invariant:
  "ToolResult_invariant (FinalReplyTool_execute a b c d)"
  by (simp add: FinalReplyTool_execute_def ToolResult_invariant_def split: sum.splits)

text \<open>
  C2, as amended. Let every registered tool return only results that satisfy the
  invariant, and let every tool message of the context at the start of the run hold a
  result with: if success is false then error is set; if success is true then error is
  unset, and content is set unless the tool is \<^verbatim>\<open>ema_reply\<close>, for which it is unset. Then
  the same holds of every tool message of the context the run leaves, so of every tool
  message the loop has appended: the result of an unknown tool or of a tool that threw has
  success false and error set, and the result of a successful \<^verbatim>\<open>ema_reply\<close> call is stored
  with its content cleared.
\<close>

theorem stored_tool_results:
  assumes "tools_respect_invariant (tools (contextManager s))"
    and "\<forall>m \<in> set (messages (contextManager s)). tool_message_ok m"
  shows "\<forall>m \<in> set (messages (contextManager (snd (run env maxSteps sysPrompt s)))).
           tool_message_ok m"
  using context_ok_run_from [of s env maxSteps sysPrompt 0] assms
  by (simp add: context_ok_def run_def)

theorem stored_tool_results_witness:
  "tools_respect_invariant (tools (contextManager single_turn_state))
   \<and> list_all tool_message_ok (messages (contextManager single_turn_state))
   \<and> tool_message_ok (ToolMessage (Some ''call_1'') ''ema_reply'' cleared_result)
   \<and> stored_invariant ''ema_reply'' cleared_result"
proof -
  have t: "tools_respect_invariant (tools (contextManager single_turn_state))"
    by (auto simp: tools_respect_invariant_def single_turn_state_def ema_reply_tool_def
          FinalReplyTool_execute_invariant)
  have m: "\<forall>m \<in> set (messages (contextManager single_turn_state)). tool_message_ok m"
    by (simp add: single_turn_state_def)
  have "messages (contextManager (snd (run single_turn_env 5 ''You are EMA.'' single_turn_state))) ! 2
     = ToolMessage (Some ''call_1'') ''ema_reply'' cleared_result"
    by code_simp
  moreover have "2 < length (messages (contextManager
      (snd (run single_turn_env 5 ''You are EMA.'' single_turn_state))))"
    by code_simp
  ultimately have "ToolMessage (Some ''call_1'') ''ema_reply'' cleared_result
     \<in> set (messages (contextManager (snd (run single_turn_env 5 ''You are EMA.'' single_turn_state))))"
    by (metis nth_mem)
  then have "tool_message_ok (ToolMessage (Some ''call_1'') ''ema_reply'' cleared_result)"
    using stored_tool_results [OF t m, of single_turn_env 5 "''You are EMA.''"] by blast
  then show ?thesis using t m by (simp add: list_all_iff)
qed

text \<open>
  The claim as written fails on the single-turn scenario: the tool message appended after
  the successful \<^verbatim>\<open>ema_reply\<close> call holds a result with success true and no content.
\<close>

theorem cleared_reply_breaks_invariant:
  "messages (contextManager (snd (run single_turn_env 5 ''You are EMA.'' single_turn_state))) ! 2
     = ToolMessage (Some ''call_1'') ''ema_reply'' cleared_result
   \<and> success cleared_result \<and> content cleared_result = None
   \<and> \<not> ToolResult_invariant cleared_result"
  by code_simp

section \<open>Properties of the actor worker\<close>

subsection \<open>Input validation\<close>

text \<open>
  C9. \<open>work\<close> throws for an empty list of inputs and for a list with a block whose type
  is not \<^verbatim>\<open>text\<close>, and the worker is then as it was before the call: nothing is queued,
  no buffer write is enqueued, no event is emitted and the status is the same.
\<close>

theorem work_rejects_invalid_inputs:
  assumes "inputs = [] \<or> (\<exists>input \<in> set inputs. ctype input \<noteq> ''text'')"
  shows "\<exists>e. work aenv now inputs s = (Raised e, s)"
  using assms by (auto simp: work_def list_ex_iff)

theorem work_rejects_invalid_inputs_witness:
  "(\<exists>e. work demo_actor_env 100 [] busy_worker = (Raised e, busy_worker))
   \<and> image_block \<in> set [text_block ''hi'', image_block] \<and> ctype image_block \<noteq> ''text''
   \<and> (\<exists>e. work demo_actor_env 100 [text_block ''hi'', image_block] idle_worker = (Raised e, idle_worker))"
proof -
  have m: "image_block \<in> set [text_block ''hi'', image_block]" by simp
  have c: "ctype image_block \<noteq> ''text''" by (simp add: image_block_def)
  have "\<exists>e. work demo_actor_env 100 [] busy_worker = (Raised e, busy_worker)"
    by (rule work_rejects_invalid_inputs) simp
  moreover have "\<exists>e. work demo_actor_env 100 [text_block ''hi'', image_block] idle_worker
                       = (Raised e, idle_worker)"
    using m c by (intro work_rejects_invalid_inputs) blast
  ultimately show ?thesis using m c by blast
qed

subsection \<open>Preemption\<close>



subsection \<open>Buffer writes\<close>












section \<open>Properties of the reply tool\<close>


end
